theory Spec2Isabelle
  imports Main "HOL-Library.Word"
begin

section \<open>The ack batcher (DelayDo)\<close>

text \<open>
  The struct \<^verbatim>\<open>DelayDo\<close> of conn.go holds a mutex, the delay, the timer
  pointer, the pending count and the action \<^verbatim>\<open>do\<close>. Every method body
  runs under the mutex, so each is one atomic transition. The timer pointer is
  modelled by the flag \<open>timer\<close> (true when \<^verbatim>\<open>d.timer != nil\<close>). The
  action acts on the world outside the batcher (type \<open>'w\<close>); it is passed
  to the transitions as an argument, because \<^verbatim>\<open>NewConn\<close> installs a
  method of the enclosing connection there. The threshold \<^verbatim>\<open>WIN_SIZE\<close> is
  a constant of the package that conn.go only uses; it is a parameter here.
  The count is a Go \<^verbatim>\<open>int\<close>; it stays between 0 and the larger of 1
  and the threshold, so it is an unbounded \<open>int\<close> in the model.
\<close>

record delaydo =
  delay :: nat
  timer :: bool
  cnt :: int

definition NewDelayDo :: "nat \<Rightarrow> delaydo" where
  "NewDelayDo dl = \<lparr>delay = dl, timer = False, cnt = 0\<rparr>"

text \<open>
  \<^verbatim>\<open>Add\<close>: increment; at the threshold call the action, stop and clear
  the timer, reset the count; then start a timer when the count is not zero
  and none is set.
\<close>

definition DelayDo_Add ::
  "int \<Rightarrow> (int \<Rightarrow> 'w \<Rightarrow> 'w) \<Rightarrow> delaydo \<times> 'w \<Rightarrow> delaydo \<times> 'w" where
  "DelayDo_Add WIN_SIZE do dw =
     (let d1 = (fst dw)\<lparr>cnt := cnt (fst dw) + 1\<rparr>;
          flushed = (if cnt d1 \<ge> WIN_SIZE
                     then (d1\<lparr>timer := False, cnt := 0\<rparr>, do (cnt d1) (snd dw))
                     else (d1, snd dw));
          d2 = fst flushed
      in (if cnt d2 \<noteq> 0 \<and> \<not> timer d2 then d2\<lparr>timer := True\<rparr> else d2,
          snd flushed))"

text \<open>
  The function handed to \<^verbatim>\<open>time.AfterFunc\<close>: call the action when the
  count is positive, then clear the timer and the count.
\<close>

definition timer_callback ::
  "(int \<Rightarrow> 'w \<Rightarrow> 'w) \<Rightarrow> delaydo \<times> 'w \<Rightarrow> delaydo \<times> 'w" where
  "timer_callback do dw =
     ((fst dw)\<lparr>timer := False, cnt := 0\<rparr>,
      if cnt (fst dw) > 0 then do (cnt (fst dw)) (snd dw) else snd dw)"

text \<open>
  A history of a batcher is a list of events: a call of \<^verbatim>\<open>Add\<close> or one
  run of the timer callback. The callback may run at any point of the history,
  also when no timer is set: this covers a callback that had already been
  released when \<^verbatim>\<open>Stop\<close> was called. The action of the histories
  below appends its argument to a log.
\<close>

datatype dd_event = Add | Fire

definition log_call :: "int \<Rightarrow> int list \<Rightarrow> int list" where
  "log_call n calls = calls @ [n]"

fun dd_step :: "int \<Rightarrow> dd_event \<Rightarrow> delaydo \<times> int list \<Rightarrow> delaydo \<times> int list" where
  "dd_step W Add s = DelayDo_Add W log_call s"
| "dd_step W Fire s = timer_callback log_call s"

fun dd_run :: "int \<Rightarrow> dd_event list \<Rightarrow> delaydo \<times> int list \<Rightarrow> delaydo \<times> int list" where
  "dd_run W [] s = s"
| "dd_run W (e # es) s = dd_run W es (dd_step W e s)"

definition adds :: "dd_event list \<Rightarrow> int" where
  "adds evs = int (length (filter (\<lambda>e. e = Add) evs))"

text \<open>
  The batcher's invariant: the pending count is zero or in \<open>(0, W)\<close>, the
  timer flag says whether it is positive, and every logged argument is
  positive and, when the threshold is positive, at most the threshold.
\<close>

definition dd_inv :: "int \<Rightarrow> delaydo \<times> int list \<Rightarrow> bool" where
  "dd_inv W s = (0 \<le> cnt (fst s) \<and> (cnt (fst s) < W \<or> cnt (fst s) = 0)
                 \<and> timer (fst s) = (0 < cnt (fst s))
                 \<and> list_all (\<lambda>n. 0 < n \<and> (n \<le> W \<or> W \<le> 0)) (snd s))"

section \<open>Errors, frames\<close>

text \<open>
  Go's \<^verbatim>\<open>error\<close> values that conn.go tells apart are \<^verbatim>\<open>io.EOF\<close>
  and \<^verbatim>\<open>io.ErrClosedPipe\<close>; every other error is \<open>ErrOther\<close> with a tag.
  A result \<^verbatim>\<open>err == nil\<close> is \<open>None\<close>.

  The frame types are declared elsewhere in the package. The dispatch loop
  tells three of them apart by a type switch; every other kind of frame takes
  its default branch and is \<open>FrameOther\<close> here.
\<close>

datatype error = EOF | ErrClosedPipe | ErrOther nat

type_synonym byte = "8 word"

datatype frame =
    FrameData "16 word" "byte list"
  | FrameAck "16 word" "32 word"
  | FrameFin "16 word"
  | FrameOther nat

section \<open>The byte channel (Pipe)\<close>

text \<open>
  \<^verbatim>\<open>Pipe\<close> wraps the two ends of an \<^verbatim>\<open>io.Pipe\<close> of Go's library and
  adds the flag \<^verbatim>\<open>Closed\<close>. The model keeps one flag per end, set by that
  end's \<^verbatim>\<open>Close\<close>, and the bytes that writes have passed to the reader.
\<close>

record pipe =
  Closed :: bool
  pr_closed :: bool
  pw_closed :: bool
  passed :: "byte list"

definition NewPipe :: pipe where
  "NewPipe = \<lparr>Closed = False, pr_closed = False, pw_closed = False, passed = []\<rparr>"

text \<open>
  \<^verbatim>\<open>Pipe.Read\<close> and \<^verbatim>\<open>Pipe.Write\<close> call the library's end and replace
  the error \<^verbatim>\<open>io.ErrClosedPipe\<close> by \<^verbatim>\<open>io.EOF\<close>. The library's call is
  the parameter \<open>rd\<close> (\<open>wr\<close>): any function from the pipe and the
  argument to a count, an error and the pipe after the call.
\<close>

definition Pipe_Read ::
  "(pipe \<Rightarrow> nat \<Rightarrow> (nat \<times> error option) \<times> pipe) \<Rightarrow> pipe \<Rightarrow> nat
     \<Rightarrow> (nat \<times> error option) \<times> pipe" where
  "Pipe_Read rd p len =
     (let r = rd p len; n = fst (fst r); err = snd (fst r)
      in ((n, if err = Some ErrClosedPipe then Some EOF else err), snd r))"

definition Pipe_Write ::
  "(pipe \<Rightarrow> byte list \<Rightarrow> (nat \<times> error option) \<times> pipe) \<Rightarrow> pipe \<Rightarrow> byte list
     \<Rightarrow> (nat \<times> error option) \<times> pipe" where
  "Pipe_Write wr p data =
     (let r = wr p data; n = fst (fst r); err = snd (fst r)
      in ((n, if err = Some ErrClosedPipe then Some EOF else err), snd r))"

text \<open>
  \<^verbatim>\<open>Pipe.Close\<close> sets the flag and closes both ends; the results of the two
  library calls are dropped and the named result \<^verbatim>\<open>err\<close> is never
  assigned.
\<close>

definition Pipe_Close :: "pipe \<Rightarrow> error option \<times> pipe" where
  "Pipe_Close p = (None, p\<lparr>Closed := True, pr_closed := True, pw_closed := True\<rparr>)"

text \<open>
  The library's writer end, as the dispatch loop meets it: a write to a pipe
  with a closed end passes nothing and reports \<^verbatim>\<open>io.ErrClosedPipe\<close>; on an
  open pipe it returns once the reader has taken all the bytes.
\<close>

definition pw_Write :: "pipe \<Rightarrow> byte list \<Rightarrow> (nat \<times> error option) \<times> pipe" where
  "pw_Write p data =
     (if pr_closed p \<or> pw_closed p then ((0, Some ErrClosedPipe), p)
      else ((length data, None), p\<lparr>passed := passed p @ data\<rparr>))"

text \<open>Histories of a pipe: writes of the dispatch loop and calls of \<^verbatim>\<open>Close\<close>.\<close>

datatype pipe_op = PWrite "byte list" | PClose

fun pipe_step :: "pipe_op \<Rightarrow> pipe \<Rightarrow> pipe" where
  "pipe_step (PWrite data) p = snd (Pipe_Write pw_Write p data)"
| "pipe_step PClose p = snd (Pipe_Close p)"

fun pipe_run :: "pipe_op list \<Rightarrow> pipe \<Rightarrow> pipe" where
  "pipe_run [] p = p"
| "pipe_run (x # xs) p = pipe_run xs (pipe_step x p)"

section \<open>The inbox (ChanFrameSender)\<close>

text \<open>
  A Go channel of frames with its single receiver, the worker of the
  connection. \<open>queue\<close> holds, in order, the frames that sends have passed
  and the receiver has not taken yet; \<open>cap\<close> is the capacity given to
  \<^verbatim>\<open>make\<close>; \<open>chan_closed\<close> says whether \<^verbatim>\<open>close\<close> has been called;
  \<open>waiting\<close> says that the receiver is parked in the receive; \<open>direct\<close>
  says that the frame at the head of \<open>queue\<close> was passed straight to the
  parked receiver, so that it takes no place in the buffer. The number of
  frames in the buffer (Go's \<^verbatim>\<open>len\<close> of the channel) is \<open>buffered\<close>.
\<close>

record chan =
  queue :: "frame list"
  cap :: nat
  chan_closed :: bool
  waiting :: bool
  direct :: bool

definition NewChanFrameSender :: "nat \<Rightarrow> chan" where
  "NewChanFrameSender i =
     \<lparr>queue = [], cap = i, chan_closed = False, waiting = False, direct = False\<rparr>"

definition buffered :: "chan \<Rightarrow> nat" where
  "buffered c = length (queue c) - (if direct c then 1 else 0)"

text \<open>
  \<^verbatim>\<open>SendFrame\<close>: a \<^verbatim>\<open>select\<close> with a send and an empty default. The
  send on a closed channel panics; the deferred \<^verbatim>\<open>recover\<close> swallows the
  panic and the named result keeps its zero value \<^verbatim>\<open>false\<close>. On an open
  channel the send is taken when the receiver is parked in the receive (the
  frame goes straight to it, whatever the capacity) or when the buffer has
  room; otherwise the default is taken.
\<close>

definition SendFrame :: "chan \<Rightarrow> frame \<Rightarrow> bool \<times> chan" where
  "SendFrame c f =
     (if chan_closed c then (False, c)
      else if waiting c
        then (True, c\<lparr>queue := queue c @ [f], waiting := False, direct := True\<rparr>)
      else if buffered c < cap c then (True, c\<lparr>queue := queue c @ [f]\<rparr>)
      else (False, c))"

text \<open>
  \<^verbatim>\<open>CloseSend\<close>: \<^verbatim>\<open>close\<close>, which also wakes a parked receiver; the
  panic of a second close is swallowed and changes nothing.
\<close>

definition CloseSend :: "chan \<Rightarrow> chan" where
  "CloseSend c = (if chan_closed c then c else c\<lparr>chan_closed := True, waiting := False\<rparr>)"

section \<open>The session's sender (SeqWriter) and the session\<close>

text \<open>
  Modelled from the spec: the type \<^verbatim>\<open>SeqWriter\<close> and its methods
  \<^verbatim>\<open>Data\<close>, \<^verbatim>\<open>Ack\<close>, \<^verbatim>\<open>Release\<close>, \<^verbatim>\<open>Close\<close> and
  \<^verbatim>\<open>Closed\<close> are not in conn.go, which only calls them. The spec's
  section 6 gives the sender as: \<open>sendData\<close>, \<open>sendAck\<close> and
  \<open>sendFin\<close> return an error; \<open>sendFin\<close> is idempotent and reports a
  distinguished "already closed" (the \<^verbatim>\<open>io.EOF\<close> that \<^verbatim>\<open>Conn.Close\<close>
  tests for) on repeat; \<open>applyWindowCredit\<close> applies a credit;
  \<open>isSendClosed\<close> tells whether the send side is closed. Whether the
  session accepts a frame is not the sender's choice: it is the parameter
  \<open>tx\<close>, a function of the frames handed over so far and the frame.
\<close>

record seqwriter =
  sw_closed :: bool
  sw_credit :: nat
  sw_sent :: "frame list"

definition NewSeqWriter :: seqwriter where
  "NewSeqWriter = \<lparr>sw_closed = False, sw_credit = 0, sw_sent = []\<rparr>"

definition sw_emit ::
  "(frame list \<Rightarrow> frame \<Rightarrow> error option) \<Rightarrow> frame \<Rightarrow> seqwriter \<Rightarrow> error option \<times> seqwriter" where
  "sw_emit tx f s = (tx (sw_sent s) f, s\<lparr>sw_sent := sw_sent s @ [f]\<rparr>)"

definition sw_Data ::
  "(frame list \<Rightarrow> frame \<Rightarrow> error option) \<Rightarrow> 16 word \<Rightarrow> seqwriter \<Rightarrow> byte list
     \<Rightarrow> error option \<times> seqwriter" where
  "sw_Data tx sid s data =
     (if sw_closed s then (Some EOF, s) else sw_emit tx (FrameData sid data) s)"

definition sw_Ack ::
  "(frame list \<Rightarrow> frame \<Rightarrow> error option) \<Rightarrow> 16 word \<Rightarrow> 32 word \<Rightarrow> seqwriter
     \<Rightarrow> error option \<times> seqwriter" where
  "sw_Ack tx sid n s = sw_emit tx (FrameAck sid n) s"

definition sw_Release :: "32 word \<Rightarrow> seqwriter \<Rightarrow> nat \<times> seqwriter" where
  "sw_Release w s = (sw_credit s + unat w, s\<lparr>sw_credit := sw_credit s + unat w\<rparr>)"

definition sw_Close ::
  "(frame list \<Rightarrow> frame \<Rightarrow> error option) \<Rightarrow> 16 word \<Rightarrow> seqwriter \<Rightarrow> error option \<times> seqwriter" where
  "sw_Close tx sid s =
     (if sw_closed s then (Some EOF, s)
      else sw_emit tx (FrameFin sid) (s\<lparr>sw_closed := True\<rparr>))"

definition sw_Closed :: "seqwriter \<Rightarrow> bool" where
  "sw_Closed s = sw_closed s"

section \<open>The virtual connection (Conn)\<close>

text \<open>
  The constants \<^verbatim>\<open>WIN_SIZE\<close>, \<^verbatim>\<open>CHANLEN\<close> and \<^verbatim>\<open>ACKDELAY\<close> are
  declared elsewhere in the package; with the session's answer to a frame
  they form the environment of a connection.
\<close>

record env =
  WIN_SIZE :: int
  CHANLEN :: nat
  ACKDELAY :: nat
  tx :: "frame list \<Rightarrow> frame \<Rightarrow> error option"

text \<open>
  The struct \<^verbatim>\<open>Conn\<close>. The flag \<open>removefunc\<close> is the \<^verbatim>\<open>sync.Once\<close>
  (true once its function has run). Of the session the connection keeps the
  list of the \<^verbatim>\<open>RemovePorts\<close> calls it made, one stream id per call.
\<close>

record conn =
  pipe :: pipe
  chan :: chan
  streamid :: "16 word"
  removefunc :: bool
  dd :: delaydo
  sw :: seqwriter
  RemovePorts :: "16 word list"

definition NewConn :: "env \<Rightarrow> 16 word \<Rightarrow> conn" where
  "NewConn e sid =
     \<lparr>pipe = NewPipe, chan = NewChanFrameSender (CHANLEN e), streamid = sid,
      removefunc = False, dd = NewDelayDo (ACKDELAY e), sw = NewSeqWriter,
      RemovePorts = []\<rparr>"

text \<open>
  \<^verbatim>\<open>remove_port\<close>: under the once-guard, call the session's
  \<^verbatim>\<open>RemovePorts\<close> (its error is only logged) and close the inbox.
\<close>

definition remove_port :: "conn \<Rightarrow> conn" where
  "remove_port c =
     (if removefunc c then c
      else c\<lparr>removefunc := True,
             RemovePorts := RemovePorts c @ [streamid c],
             chan := CloseSend (chan c)\<rparr>)"

text \<open>
  \<^verbatim>\<open>Close\<close>: close the sender; \<^verbatim>\<open>io.EOF\<close> from it counts as success, any
  other error is returned at once; then remove the port when the pipe is
  closed.
\<close>

definition Conn_Close :: "env \<Rightarrow> conn \<Rightarrow> error option \<times> conn" where
  "Conn_Close e c =
     (let r = sw_Close (tx e) (streamid c) (sw c);
          c1 = c\<lparr>sw := snd r\<rparr>;
          err = (if fst r = Some EOF then None else fst r)
      in if err \<noteq> None then (err, c1)
         else (None, if Closed (pipe c1) then remove_port c1 else c1))"

definition CloseAll :: "env \<Rightarrow> conn \<Rightarrow> conn" where
  "CloseAll e c =
     (let c1 = c\<lparr>sw := snd (sw_Close (tx e) (streamid c) (sw c))\<rparr>;
          c2 = c1\<lparr>pipe := snd (Pipe_Close (pipe c1))\<rparr>
      in remove_port c2)"

text \<open>
  \<^verbatim>\<open>send_ack\<close>: hand an ack frame with \<^verbatim>\<open>int32(n)\<close> to the sender; on an
  error close the connection. The batcher drops the error it returns.
\<close>

definition send_ack :: "env \<Rightarrow> int \<Rightarrow> conn \<Rightarrow> error option \<times> conn" where
  "send_ack e n c =
     (let r = sw_Ack (tx e) (streamid c) (word_of_int n) (sw c);
          c1 = c\<lparr>sw := snd r\<rparr>
      in if fst r \<noteq> None then (fst r, snd (Conn_Close e c1)) else (None, c1))"

text \<open>\<^verbatim>\<open>c.dd.Add()\<close> with the action \<^verbatim>\<open>c.send_ack\<close> that \<^verbatim>\<open>NewConn\<close> installs.\<close>

definition dd_Add :: "env \<Rightarrow> conn \<Rightarrow> conn" where
  "dd_Add e c =
     (let r = DelayDo_Add (WIN_SIZE e) (\<lambda>n w. snd (send_ack e n w)) (dd c, c)
      in (snd r)\<lparr>dd := fst r\<rparr>)"

definition dd_timer :: "env \<Rightarrow> conn \<Rightarrow> conn" where
  "dd_timer e c =
     (let r = timer_callback (\<lambda>n w. snd (send_ack e n w)) (dd c, c)
      in (snd r)\<lparr>dd := fst r\<rparr>)"

text \<open>
  One pass of the loop of \<^verbatim>\<open>Run\<close> on a received frame \<open>f\<close>: the new
  connection, and whether the loop goes on (\<open>True\<close>) or \<^verbatim>\<open>Run\<close> returns.
\<close>

definition dispatch :: "env \<Rightarrow> frame \<Rightarrow> conn \<Rightarrow> conn \<times> bool" where
  "dispatch e f c =
     (case f of
        FrameData sid data \<Rightarrow>
          (let c1 = dd_Add e c;
               r = Pipe_Write pw_Write (pipe c1) data;
               c2 = c1\<lparr>pipe := snd r\<rparr>
           in case snd (fst r) of
                Some EOF \<Rightarrow> (CloseAll e c2, False)
              | None \<Rightarrow> (c2, True)
              | Some _ \<Rightarrow> (CloseAll e c2, False))
      | FrameAck sid w \<Rightarrow> (c\<lparr>sw := snd (sw_Release w (sw c))\<rparr>, True)
      | FrameFin sid \<Rightarrow>
          (let c1 = c\<lparr>pipe := snd (Pipe_Close (pipe c))\<rparr>
           in (if sw_Closed (sw c1) then remove_port c1 else c1, False))
      | FrameOther k \<Rightarrow> (CloseAll e c, False))"

text \<open>
  \<^verbatim>\<open>Run\<close>. One pass of its loop starts at the receive: with a frame
  queued it takes and dispatches it; on an empty, closed inbox the receive
  yields \<^verbatim>\<open>ok == false\<close> and the loop tears the connection down; on an
  empty, open inbox the worker parks in the receive. The worker is either at
  the receive (\<open>Receiving\<close>) or \<^verbatim>\<open>Run\<close> has returned (\<open>Returned\<close>).
\<close>

datatype worker = Receiving | Returned

definition Run_pass :: "env \<Rightarrow> conn \<Rightarrow> conn \<times> worker" where
  "Run_pass e c =
     (case queue (chan c) of
        [] \<Rightarrow> if chan_closed (chan c) then (CloseAll e c, Returned)
              else (c\<lparr>chan := (chan c)\<lparr>waiting := True\<rparr>\<rparr>, Receiving)
      | f # q \<Rightarrow>
          (let r = dispatch e f (c\<lparr>chan := (chan c)\<lparr>queue := q, direct := False\<rparr>\<rparr>)
           in (fst r, if snd r then Receiving else Returned)))"

text \<open>
  \<^verbatim>\<open>Run\<close> itself: passes of the loop until \<^verbatim>\<open>Run\<close> returns or the worker
  waits in the receive on an empty, open inbox.
\<close>

function Run :: "env \<Rightarrow> conn \<Rightarrow> conn \<times> worker" where
  "Run e c =
     (let r = Run_pass e c
      in if queue (chan c) \<noteq> [] \<and> snd r = Receiving then Run e (fst r) else r)"
  by pat_completeness auto
termination
proof (relation "measure (\<lambda>(e, c). length (queue (chan c)))")
  show "wf (measure (\<lambda>(e, c). length (queue (chan c))))"
    by simp
next
  fix e c and x :: "conn \<times> worker"
  assume x: "x = Run_pass e c" and more: "queue (chan c) \<noteq> [] \<and> snd x = Receiving"
  have rp: "queue (chan (remove_port c)) = queue (chan c)" for c
    by (simp add: remove_port_def CloseSend_def)
  have cl: "queue (chan (snd (Conn_Close e c))) = queue (chan c)" for c
    by (simp add: Conn_Close_def Let_def rp)
  have ca: "queue (chan (CloseAll e c)) = queue (chan c)" for c
    by (simp add: CloseAll_def Let_def rp)
  have sa: "queue (chan (snd (send_ack e n c))) = queue (chan c)" for n c
    by (simp add: send_ack_def Let_def cl)
  have ad: "queue (chan (dd_Add e c)) = queue (chan c)" for c
    by (simp add: dd_Add_def DelayDo_Add_def Let_def sa)
  have di: "queue (chan (fst (dispatch e f c))) = queue (chan c)" for f c
    by (simp add: dispatch_def Let_def rp ca ad split: frame.split option.split error.split)
  have "queue (chan (fst (Run_pass e c))) = tl (queue (chan c))"
    using more by (cases "queue (chan c)") (simp_all add: Run_pass_def Let_def di)
  with x more show "((e, fst x), e, c) \<in> measure (\<lambda>(e, c). length (queue (chan c)))"
    by simp
qed

declare Run.simps [simp del]

section \<open>Conn.Write\<close>

text \<open>
  \<^verbatim>\<open>rand.Intn(n)\<close> is some number in \<open>[0, n)\<close>; the model takes it from an
  arbitrary draw \<open>r\<close> of the generator.
\<close>

definition Intn :: "nat \<Rightarrow> nat \<Rightarrow> nat" where
  "Intn n r = r mod n"

text \<open>
  The size of the next chunk: \<^verbatim>\<open>size := uint32(len(data))\<close> keeps the low
  32 bits of the length; the switch then picks \<open>3 * 1024 + Intn 1024\<close>
  above 8 KiB (a value below \<open>2 ^ 32\<close>, which the conversion to
  \<^verbatim>\<open>uint32\<close> leaves as it is), halves a size in \<open>(4 KiB, 8 KiB]\<close> and
  keeps any other.
\<close>

definition chunk_size :: "nat \<Rightarrow> nat \<Rightarrow> nat" where
  "chunk_size r len =
     (let size = len mod 2 ^ 32
      in if size > 8 * 1024 then 3 * 1024 + Intn 1024 r
         else if 4 * 1024 < size \<and> size \<le> 8 * 1024 then size div 2
         else size)"

text \<open>
  The loop of \<^verbatim>\<open>Write\<close>. The call \<^verbatim>\<open>c.sw.Data(c.streamid, chunk)\<close> is the
  parameter \<open>send\<close>, acting on a sender state of any type; \<open>rnd k\<close> is
  the generator's draw in pass \<open>k\<close>; \<open>n\<close> is the count returned. The loop
  need not end, so its result is an option: \<open>None\<close> when \<^verbatim>\<open>Write\<close>
  does not return.
\<close>

partial_function (option) Write_loop ::
  "('s \<Rightarrow> byte list \<Rightarrow> error option \<times> 's) \<Rightarrow> (nat \<Rightarrow> nat) \<Rightarrow> nat \<Rightarrow> 's \<Rightarrow> byte list \<Rightarrow> nat
     \<Rightarrow> ((nat \<times> error option) \<times> 's) option" where
  "Write_loop send rnd k s data n =
     (if length data > 0 then
        (let size = chunk_size (rnd k) (length data);
             r = send s (take size data)
         in if fst r \<noteq> None then Some ((n, fst r), snd r)
            else Write_loop send rnd (Suc k) (snd r) (drop size data) (n + size))
      else Some ((n, None), s))"

definition Conn_Write ::
  "('s \<Rightarrow> byte list \<Rightarrow> error option \<times> 's) \<Rightarrow> (nat \<Rightarrow> nat) \<Rightarrow> 's \<Rightarrow> byte list
     \<Rightarrow> ((nat \<times> error option) \<times> 's) option" where
  "Conn_Write send rnd s data = Write_loop send rnd 0 s data 0"

text \<open>
  A sender that also keeps, in order, every chunk it was handed with the
  answer it gave: what \<^verbatim>\<open>Write\<close> passed to \<^verbatim>\<open>c.sw.Data\<close>.
\<close>

definition keeping ::
  "('s \<Rightarrow> byte list \<Rightarrow> error option \<times> 's)
     \<Rightarrow> 's \<times> (byte list \<times> error option) list \<Rightarrow> byte list
     \<Rightarrow> error option \<times> ('s \<times> (byte list \<times> error option) list)" where
  "keeping send sl chunk =
     (let r = send (fst sl) chunk in (fst r, (snd r, snd sl @ [(chunk, fst r)])))"

text \<open>
  The chunking policy in the spec's words, for a list of chunk sizes cut from
  \<open>len\<close> remaining bytes: above 8 KiB (8192) the chunk has a size in
  \<open>[3 KiB, 4 KiB)\<close>, that is from 3072 to 4095; in \<open>(4 KiB, 8 KiB]\<close> it is
  half of what remains; at most 4 KiB (4096) it is all that remains.
\<close>

fun policy :: "nat \<Rightarrow> nat list \<Rightarrow> bool" where
  "policy len [] = True"
| "policy len (z # zs) =
     ((if len > 8192 then 3072 \<le> z \<and> z < 4096
       else if len > 4096 then z = len div 2
       else z = len)
      \<and> policy (len - z) zs)"

section \<open>The connection among its callers\<close>

text \<open>
  The session delivers a frame with \<^verbatim>\<open>SendFrame\<close> on the connection's
  inbox.
\<close>

definition deliver :: "frame \<Rightarrow> conn \<Rightarrow> bool \<times> conn" where
  "deliver f c = (let r = SendFrame (chan c) f in (fst r, c\<lparr>chan := snd r\<rparr>))"

text \<open>
  A connection lives among the session, which delivers frames and may close
  the inbox; the worker that \<^verbatim>\<open>NewConn\<close> starts with
  \<^verbatim>\<open>go c.Run()\<close>; the application, which calls \<^verbatim>\<open>Close\<close>; and the
  batcher's timer. A history is a list of their steps, each atomic: a
  delivery, one pass of the worker's loop, a call of \<^verbatim>\<open>Close\<close> (its result
  is kept), a run of the timer callback, the session closing the inbox.
\<close>

datatype event = Deliver frame | Work | LocalClose | TimerFire | SessionClose

record system =
  the_conn :: conn
  worker :: worker
  closes :: "error option list"

definition start :: "env \<Rightarrow> 16 word \<Rightarrow> system" where
  "start e sid = \<lparr>the_conn = NewConn e sid, worker = Receiving, closes = []\<rparr>"

fun step :: "env \<Rightarrow> event \<Rightarrow> system \<Rightarrow> system" where
  "step e (Deliver f) s = s\<lparr>the_conn := snd (deliver f (the_conn s))\<rparr>"
| "step e Work s =
     (if worker s = Returned then s
      else s\<lparr>the_conn := fst (Run_pass e (the_conn s)),
             worker := snd (Run_pass e (the_conn s))\<rparr>)"
| "step e LocalClose s =
     s\<lparr>the_conn := snd (Conn_Close e (the_conn s)),
       closes := closes s @ [fst (Conn_Close e (the_conn s))]\<rparr>"
| "step e TimerFire s = s\<lparr>the_conn := dd_timer e (the_conn s)\<rparr>"
| "step e SessionClose s =
     s\<lparr>the_conn := (the_conn s)\<lparr>chan := CloseSend (chan (the_conn s))\<rparr>\<rparr>"

fun exec :: "env \<Rightarrow> event list \<Rightarrow> system \<Rightarrow> system" where
  "exec e [] s = s"
| "exec e (x # xs) s = exec e xs (step e x s)"

section \<open>Invariant and scenarios of the connection\<close>

text \<open>
  The invariant of the removal guard along a history of stream \<open>sid\<close>, where
  \<open>b\<close> says that some call of \<^verbatim>\<open>Close\<close> has returned nil: the session has
  been asked to remove the stream once if the guard has run and never
  otherwise; after a successful \<^verbatim>\<open>Close\<close> the sender is closed; and once
  both a \<^verbatim>\<open>Close\<close> has succeeded and the pipe is closed, the guard has run.
\<close>

definition conn_inv :: "16 word \<Rightarrow> bool \<Rightarrow> conn \<Rightarrow> bool" where
  "conn_inv sid b c =
     (streamid c = sid
      \<and> RemovePorts c = (if removefunc c then [sid] else [])
      \<and> (b \<longrightarrow> sw_closed (sw c))
      \<and> (b \<and> Closed (pipe c) \<longrightarrow> removefunc c))"

text \<open>
  The inbox is well formed when a parked receiver means an empty, open inbox
  and a frame passed straight to the receiver is still at the head.
\<close>

definition chan_wf :: "chan \<Rightarrow> bool" where
  "chan_wf c =
     ((\<not> waiting c \<or> (queue c = [] \<and> \<not> chan_closed c))
      \<and> (\<not> direct c \<or> queue c \<noteq> []))"

text \<open>
  An environment with threshold \<open>W\<close> in which the session accepts every
  frame.
\<close>

definition accepting :: "int \<Rightarrow> env" where
  "accepting W = \<lparr>WIN_SIZE = W, CHANLEN = 16, ACKDELAY = 100, tx = (\<lambda>h f. None)\<rparr>"

text \<open>
  An environment whose inbox has no buffer (capacity 0), and one in which the
  session refuses every frame.
\<close>

definition unbuffered :: env where
  "unbuffered = \<lparr>WIN_SIZE = 30, CHANLEN = 0, ACKDELAY = 100, tx = (\<lambda>h f. None)\<rparr>"

definition refusing :: env where
  "refusing = \<lparr>WIN_SIZE = 30, CHANLEN = 16, ACKDELAY = 100, tx = (\<lambda>h f. Some (ErrOther 1))\<rparr>"

text \<open>
  The session delivers the payloads \<open>ds\<close> as Data frames, and the worker
  dispatches each before the next arrives.
\<close>

fun feed :: "16 word \<Rightarrow> byte list list \<Rightarrow> event list" where
  "feed sid [] = []"
| "feed sid (d # ds) = Deliver (FrameData sid d) # Work # feed sid ds"

text \<open>
  The system after that, for fewer payloads than the threshold: all bytes
  passed to the reader, one count per frame pending, nothing sent.
\<close>

definition fed :: "env \<Rightarrow> 16 word \<Rightarrow> byte list list \<Rightarrow> system" where
  "fed e sid ds =
     \<lparr>the_conn = (NewConn e sid)
        \<lparr>pipe := NewPipe\<lparr>passed := concat ds\<rparr>,
         dd := \<lparr>delay = ACKDELAY e, timer = (ds \<noteq> []), cnt = int (length ds)\<rparr>\<rparr>,
      worker = Receiving, closes = []\<rparr>"

text \<open>A new connection of stream 7 with a Fin frame and then a Data frame queued.\<close>

definition fin_then_data :: conn where
  "fin_then_data =
     snd (deliver (FrameData 7 [1]) (snd (deliver (FrameFin 7) (NewConn (accepting 30) 7))))"

section \<open>Close and the Fin branch, statement by statement\<close>

text \<open>
  \<^verbatim>\<open>Close\<close> runs in the application's goroutine and the Fin branch of
  \<^verbatim>\<open>Run\<close> in the worker's. Each is two statements: \<^verbatim>\<open>Close\<close> closes the
  sender (and returns on an error), then tests \<^verbatim>\<open>c.Pipe.Closed\<close>; the Fin
  branch closes the pipe, then tests \<^verbatim>\<open>c.sw.Closed()\<close>. The parts below
  are these statements, each atomic, and \<open>interleavings\<close> lists the six
  ways the two pairs can run together, each pair in its own order. The state
  carries the connection and the local \<^verbatim>\<open>err\<close> of \<^verbatim>\<open>Close\<close>.
\<close>

definition Close_sender :: "env \<Rightarrow> conn \<Rightarrow> error option \<times> conn" where
  "Close_sender e c =
     (let r = sw_Close (tx e) (streamid c) (sw c)
      in (if fst r = Some EOF then None else fst r, c\<lparr>sw := snd r\<rparr>))"

definition Close_check :: "conn \<Rightarrow> conn" where
  "Close_check c = (if Closed (pipe c) then remove_port c else c)"

definition Fin_pipe :: "conn \<Rightarrow> conn" where
  "Fin_pipe c = c\<lparr>pipe := snd (Pipe_Close (pipe c))\<rparr>"

definition Fin_check :: "conn \<Rightarrow> conn" where
  "Fin_check c = (if sw_Closed (sw c) then remove_port c else c)"

datatype part = CloseSender | CloseCheck | FinPipe | FinCheck

fun part_step :: "env \<Rightarrow> part \<Rightarrow> conn \<times> error option \<Rightarrow> conn \<times> error option" where
  "part_step e CloseSender (c, err) = (snd (Close_sender e c), fst (Close_sender e c))"
| "part_step e CloseCheck (c, err) = (if err \<noteq> None then c else Close_check c, err)"
| "part_step e FinPipe (c, err) = (Fin_pipe c, err)"
| "part_step e FinCheck (c, err) = (Fin_check c, err)"

fun parts :: "env \<Rightarrow> part list \<Rightarrow> conn \<times> error option \<Rightarrow> conn \<times> error option" where
  "parts e [] s = s"
| "parts e (x # xs) s = parts e xs (part_step e x s)"

definition interleavings :: "part list list" where
  "interleavings =
     [[CloseSender, CloseCheck, FinPipe, FinCheck],
      [CloseSender, FinPipe, CloseCheck, FinCheck],
      [CloseSender, FinPipe, FinCheck, CloseCheck],
      [FinPipe, CloseSender, CloseCheck, FinCheck],
      [FinPipe, CloseSender, FinCheck, CloseCheck],
      [FinPipe, FinCheck, CloseSender, CloseCheck]]"

section \<open>Properties of the ack batcher\<close>

lemma dd_run_append: "dd_run W (xs @ ys) s = dd_run W ys (dd_run W xs s)"
  by (induction xs arbitrary: s) simp_all

lemma dd_step_inv: "dd_inv W s \<Longrightarrow> dd_inv W (dd_step W e s)"
  by (cases e)
     (auto simp: dd_inv_def DelayDo_Add_def timer_callback_def log_call_def Let_def)

lemma dd_run_inv: "dd_inv W s \<Longrightarrow> dd_inv W (dd_run W evs s)"
  by (induction evs arbitrary: s) (simp_all add: dd_step_inv)

lemma dd_inv_New: "dd_inv W (NewDelayDo dl, [])"
  by (simp add: dd_inv_def NewDelayDo_def)

lemma dd_step_sum:
  "0 \<le> cnt (fst s) \<Longrightarrow>
   sum_list (snd (dd_step W e s)) + cnt (fst (dd_step W e s))
     = sum_list (snd s) + cnt (fst s) + (if e = Add then 1 else 0)"
  by (cases e) (simp_all add: DelayDo_Add_def timer_callback_def log_call_def Let_def)

lemma dd_run_sum:
  "dd_inv W s \<Longrightarrow>
   sum_list (snd (dd_run W evs s)) + cnt (fst (dd_run W evs s))
     = sum_list (snd s) + cnt (fst s) + adds evs"
proof (induction evs arbitrary: s)
  case Nil
  show ?case by (simp add: adds_def)
next
  case (Cons e es)
  have a: "adds (e # es) = (if e = Add then 1 else 0) + adds es"
    by (simp add: adds_def)
  have "0 \<le> cnt (fst s)"
    using Cons.prems by (simp add: dd_inv_def)
  then have b: "sum_list (snd (dd_step W e s)) + cnt (fst (dd_step W e s))
     = sum_list (snd s) + cnt (fst s) + (if e = Add then 1 else 0)"
    by (rule dd_step_sum)
  have "dd_inv W (dd_step W e s)"
    using Cons.prems by (rule dd_step_inv)
  from Cons.IH [OF this] a b show ?case
    by simp
qed

text \<open>
  Claim C5. For every history of \<^verbatim>\<open>Add\<close> calls and timer callbacks, run
  in any order from a new batcher with a positive threshold: the arguments of
  the action's calls and the pending count add up to the number of
  \<^verbatim>\<open>Add\<close> calls; once the pending batch is flushed by the timer the
  arguments alone add up to it; and every argument is positive and at most
  the threshold.
\<close>

theorem DelayDo_calls_sum_and_bound:
  assumes "0 < W"
  shows "sum_list (snd (dd_run W evs (NewDelayDo dl, [])))
           + cnt (fst (dd_run W evs (NewDelayDo dl, []))) = adds evs
       \<and> sum_list (snd (dd_run W (evs @ [Fire]) (NewDelayDo dl, []))) = adds evs
       \<and> (\<forall>n \<in> set (snd (dd_run W evs (NewDelayDo dl, []))). 0 < n \<and> n \<le> W)"
proof -
  let ?s = "dd_run W evs (NewDelayDo dl, [])"
  have new: "dd_inv W (NewDelayDo dl, [])"
    by (rule dd_inv_New)
  have inv: "dd_inv W ?s"
    using new by (rule dd_run_inv)
  have total: "sum_list (snd ?s) + cnt (fst ?s) = adds evs"
    using dd_run_sum [OF new] by (simp add: NewDelayDo_def)
  have "dd_run W (evs @ [Fire]) (NewDelayDo dl, []) = timer_callback log_call ?s"
    by (simp add: dd_run_append)
  moreover have "sum_list (snd (timer_callback log_call ?s)) = sum_list (snd ?s) + cnt (fst ?s)"
    using inv by (simp add: timer_callback_def log_call_def dd_inv_def)
  ultimately have flushed:
    "sum_list (snd (dd_run W (evs @ [Fire]) (NewDelayDo dl, []))) = adds evs"
    using total by simp
  have "\<forall>n \<in> set (snd ?s). 0 < n \<and> n \<le> W"
    using inv assms by (auto simp: dd_inv_def list_all_iff)
  with total flushed show ?thesis by blast
qed

theorem DelayDo_calls_sum_and_bound_witness:
  "(0::int) < 3
   \<and> adds [Add, Add, Fire, Add, Add, Add, Add] = 6
   \<and> snd (dd_run 3 [Add, Add, Fire, Add, Add, Add, Add] (NewDelayDo 100, [])) = [2, 3]
   \<and> sum_list (snd (dd_run 3 [Add, Add, Fire, Add, Add, Add, Add] (NewDelayDo 100, [])))
       + cnt (fst (dd_run 3 [Add, Add, Fire, Add, Add, Add, Add] (NewDelayDo 100, []))) = 6
   \<and> sum_list (snd (dd_run 3 ([Add, Add, Fire, Add, Add, Add, Add] @ [Fire])
                      (NewDelayDo 100, []))) = 6
   \<and> list_all (\<lambda>n. 0 < n \<and> n \<le> 3)
         (snd (dd_run 3 [Add, Add, Fire, Add, Add, Add, Add] (NewDelayDo 100, [])))"
proof -
  have pos: "(0::int) < 3"
    by simp
  have n: "adds [Add, Add, Fire, Add, Add, Add, Add] = 6"
    by (simp add: adds_def)
  have calls: "snd (dd_run 3 [Add, Add, Fire, Add, Add, Add, Add] (NewDelayDo 100, [])) = [2, 3]"
    by (simp add: DelayDo_Add_def timer_callback_def log_call_def NewDelayDo_def Let_def)
  note inst = DelayDo_calls_sum_and_bound
    [OF pos, where evs = "[Add, Add, Fire, Add, Add, Add, Add]" and dl = 100]
  from inst have bound: "list_all (\<lambda>n. 0 < n \<and> n \<le> 3)
         (snd (dd_run 3 [Add, Add, Fire, Add, Add, Add, Add] (NewDelayDo 100, [])))"
    unfolding list_all_iff by blast
  from inst n have "sum_list (snd (dd_run 3 [Add, Add, Fire, Add, Add, Add, Add] (NewDelayDo 100, [])))
       + cnt (fst (dd_run 3 [Add, Add, Fire, Add, Add, Add, Add] (NewDelayDo 100, []))) = 6"
    and "sum_list (snd (dd_run 3 ([Add, Add, Fire, Add, Add, Add, Add] @ [Fire])
                      (NewDelayDo 100, []))) = 6"
    by simp_all
  with pos n calls bound show ?thesis
    by blast
qed

section \<open>What the connection's operations leave alone\<close>

text \<open>No operation of the connection touches the frames queued in its inbox.\<close>

lemma remove_port_queue [simp]: "queue (chan (remove_port c)) = queue (chan c)"
  by (simp add: remove_port_def CloseSend_def)

lemma Conn_Close_queue [simp]: "queue (chan (snd (Conn_Close e c))) = queue (chan c)"
  by (simp add: Conn_Close_def Let_def)

lemma CloseAll_queue [simp]: "queue (chan (CloseAll e c)) = queue (chan c)"
  by (simp add: CloseAll_def Let_def)

lemma send_ack_queue [simp]: "queue (chan (snd (send_ack e n c))) = queue (chan c)"
  by (simp add: send_ack_def Let_def)

lemma dd_Add_queue [simp]: "queue (chan (dd_Add e c)) = queue (chan c)"
  by (simp add: dd_Add_def DelayDo_Add_def Let_def)

lemma dispatch_queue [simp]: "queue (chan (fst (dispatch e f c))) = queue (chan c)"
  by (simp add: dispatch_def Let_def split: frame.split option.split error.split)

lemma Run_pass_queue:
  "queue (chan c) \<noteq> [] \<Longrightarrow> queue (chan (fst (Run_pass e c))) = tl (queue (chan c))"
  by (cases "queue (chan c)") (simp_all add: Run_pass_def Let_def)

section \<open>Properties of the byte channel and the inbox\<close>

text \<open>
  Claim C7. Whatever the library's pipe operation does, \<^verbatim>\<open>Pipe.Read\<close> and
  \<^verbatim>\<open>Pipe.Write\<close> never return the closed-pipe error; when the operation
  reports it they return end of stream with the same count; and a caller gets
  the same result from an operation that reports the closed pipe as from one
  that reports end of stream.
\<close>

theorem Pipe_Read_Write_closed_is_EOF:
  "snd (fst (Pipe_Read rd p len)) \<noteq> Some ErrClosedPipe
   \<and> snd (fst (Pipe_Write wr p data)) \<noteq> Some ErrClosedPipe
   \<and> (snd (fst (rd p len)) = Some ErrClosedPipe \<longrightarrow>
        Pipe_Read rd p len = ((fst (fst (rd p len)), Some EOF), snd (rd p len)))
   \<and> (snd (fst (wr p data)) = Some ErrClosedPipe \<longrightarrow>
        Pipe_Write wr p data = ((fst (fst (wr p data)), Some EOF), snd (wr p data)))
   \<and> Pipe_Read (\<lambda>p len. ((n, Some ErrClosedPipe), q)) p len
        = Pipe_Read (\<lambda>p len. ((n, Some EOF), q)) p len
   \<and> Pipe_Write (\<lambda>p data. ((n, Some ErrClosedPipe), q)) p data
        = Pipe_Write (\<lambda>p data. ((n, Some EOF), q)) p data"
  by (simp add: Pipe_Read_def Pipe_Write_def Let_def)

theorem Pipe_Read_Write_closed_is_EOF_witness:
  "snd (fst (pw_Write (snd (Pipe_Close NewPipe)) [1, 2, 3])) = Some ErrClosedPipe
   \<and> Pipe_Write pw_Write (snd (Pipe_Close NewPipe)) [1, 2, 3]
        = ((0, Some EOF), snd (Pipe_Close NewPipe))
   \<and> Pipe_Read (\<lambda>p len. ((0, Some ErrClosedPipe), p)) (snd (Pipe_Close NewPipe)) 16
        = ((0, Some EOF), snd (Pipe_Close NewPipe))"
proof -
  let ?p = "snd (Pipe_Close NewPipe)"
  have w: "pw_Write ?p [1, 2, 3] = ((0, Some ErrClosedPipe), ?p)"
    by (simp add: pw_Write_def Pipe_Close_def)
  note inst = Pipe_Read_Write_closed_is_EOF
    [where rd = "\<lambda>p len. ((0, Some ErrClosedPipe), p)" and wr = pw_Write
       and p = ?p and len = 16 and data = "[1, 2, 3]"]
  from inst w have a: "Pipe_Write pw_Write ?p [1, 2, 3] = ((0, Some EOF), ?p)"
    by simp
  from inst have b: "Pipe_Read (\<lambda>p len. ((0, Some ErrClosedPipe), p)) ?p 16
        = ((0, Some EOF), ?p)"
    by simp
  from w a b show ?thesis
    by simp
qed

text \<open>Every state of the inbox that a history of the connection reaches is well formed.\<close>

lemma chan_wf_SendFrame: "chan_wf c \<Longrightarrow> chan_wf (snd (SendFrame c f))"
  by (auto simp: chan_wf_def SendFrame_def)

lemma chan_wf_CloseSend: "chan_wf c \<Longrightarrow> chan_wf (CloseSend c)"
  by (auto simp: chan_wf_def CloseSend_def)

lemma chan_wf_remove_port: "chan_wf (chan c) \<Longrightarrow> chan_wf (chan (remove_port c))"
  by (simp add: remove_port_def chan_wf_CloseSend)

lemma chan_wf_Conn_Close: "chan_wf (chan c) \<Longrightarrow> chan_wf (chan (snd (Conn_Close e c)))"
  by (simp add: Conn_Close_def Let_def chan_wf_remove_port)

lemma chan_wf_CloseAll: "chan_wf (chan c) \<Longrightarrow> chan_wf (chan (CloseAll e c))"
  by (simp add: CloseAll_def Let_def chan_wf_remove_port)

lemma chan_wf_send_ack: "chan_wf (chan c) \<Longrightarrow> chan_wf (chan (snd (send_ack e n c)))"
  by (simp add: send_ack_def Let_def chan_wf_Conn_Close)

lemma chan_wf_dd_Add: "chan_wf (chan c) \<Longrightarrow> chan_wf (chan (dd_Add e c))"
  by (simp add: dd_Add_def DelayDo_Add_def Let_def chan_wf_send_ack)

lemma chan_wf_dd_timer: "chan_wf (chan c) \<Longrightarrow> chan_wf (chan (dd_timer e c))"
  by (simp add: dd_timer_def timer_callback_def Let_def chan_wf_send_ack)

lemma chan_wf_dispatch:
  assumes "chan_wf (chan c)"
  shows "chan_wf (chan (fst (dispatch e f c)))"
proof (cases f)
  case (FrameData i data)
  have "chan_wf (chan (dd_Add e c))"
    using assms by (rule chan_wf_dd_Add)
  then have "chan_wf (chan ((dd_Add e c)\<lparr>pipe := p\<rparr>))"
    and "chan_wf (chan (CloseAll e ((dd_Add e c)\<lparr>pipe := p\<rparr>)))" for p
    by (simp_all add: chan_wf_CloseAll)
  with FrameData show ?thesis
    by (simp add: dispatch_def Let_def split: option.split error.split)
next
  case (FrameAck i w)
  with assms show ?thesis
    by (simp add: dispatch_def)
next
  case (FrameFin i)
  have "chan_wf (chan (remove_port (c\<lparr>pipe := p\<rparr>)))" for p
    using assms by (simp add: chan_wf_remove_port)
  with FrameFin assms show ?thesis
    by (simp add: dispatch_def Let_def)
next
  case (FrameOther k)
  with chan_wf_CloseAll [OF assms] show ?thesis
    by (simp add: dispatch_def)
qed

lemma chan_wf_Run_pass:
  assumes "chan_wf (chan c)"
  shows "chan_wf (chan (fst (Run_pass e c)))"
proof (cases "queue (chan c)")
  case Nil
  have "chan_wf ((chan c)\<lparr>waiting := True\<rparr>)" if "\<not> chan_closed (chan c)"
    using assms Nil that by (simp add: chan_wf_def)
  with Nil chan_wf_CloseAll [OF assms] show ?thesis
    by (simp add: Run_pass_def)
next
  case (Cons f q)
  have "chan_wf ((chan c)\<lparr>queue := q, direct := False\<rparr>)"
    using assms Cons by (simp add: chan_wf_def)
  then have "chan_wf (chan (c\<lparr>chan := (chan c)\<lparr>queue := q, direct := False\<rparr>\<rparr>))"
    by simp
  from chan_wf_dispatch [OF this] Cons show ?thesis
    by (simp add: Run_pass_def Let_def)
qed

lemma chan_wf_step:
  assumes "chan_wf (chan (the_conn s))"
  shows "chan_wf (chan (the_conn (step e x s)))"
proof (cases x)
  case (Deliver f)
  with chan_wf_SendFrame [OF assms] show ?thesis
    by (simp add: deliver_def Let_def)
next
  case Work
  with assms chan_wf_Run_pass [OF assms] show ?thesis by simp
next
  case LocalClose
  with chan_wf_Conn_Close [OF assms] show ?thesis by simp
next
  case TimerFire
  with chan_wf_dd_timer [OF assms] show ?thesis by simp
next
  case SessionClose
  with chan_wf_CloseSend [OF assms] show ?thesis by simp
qed

lemma chan_wf_exec:
  "chan_wf (chan (the_conn s)) \<Longrightarrow> chan_wf (chan (the_conn (exec e evs s)))"
  by (induction evs arbitrary: s) (simp_all add: chan_wf_step)

lemma chan_wf_start: "chan_wf (chan (the_conn (start e sid)))"
  by (simp add: chan_wf_def start_def NewConn_def NewChanFrameSender_def)

text \<open>
  Claim C8, as amended. \<^verbatim>\<open>SendFrame\<close> on a closed inbox, or on a full
  buffer while no receiver is parked in the receive, returns false and leaves
  the inbox as it was, so the frame is dropped. It returns true exactly when
  the frame has been passed on for the receiver, which is exactly when the
  inbox is open and either the receiver is parked or the buffer has room: a
  frame sent with no receiver parked takes a place in the buffer, a frame sent
  to the parked receiver goes straight to it and takes none. With a capacity
  of at least 1, a full buffer has no parked receiver in any state a
  connection reaches, and the closed or full inbox returns false as the claim
  says. The function is total: it never waits.
\<close>

theorem SendFrame_true_iff_passed:
  "(chan_closed c \<or> (\<not> waiting c \<and> cap c \<le> buffered c) \<longrightarrow> SendFrame c f = (False, c))
   \<and> fst (SendFrame c f) = (queue (snd (SendFrame c f)) = queue c @ [f])
   \<and> fst (SendFrame c f) = (\<not> chan_closed c \<and> (waiting c \<or> buffered c < cap c))
   \<and> (\<not> fst (SendFrame c f) \<longrightarrow> snd (SendFrame c f) = c)
   \<and> cap (snd (SendFrame c f)) = cap c
   \<and> chan_closed (snd (SendFrame c f)) = chan_closed c
   \<and> (chan_wf c \<and> fst (SendFrame c f) \<and> \<not> waiting c \<longrightarrow>
        buffered (snd (SendFrame c f)) = buffered c + 1)
   \<and> (chan_wf c \<and> fst (SendFrame c f) \<and> waiting c \<longrightarrow>
        buffered (snd (SendFrame c f)) = 0 \<and> queue (snd (SendFrame c f)) = [f])
   \<and> (0 < cap c \<and> chan_wf c \<and> (chan_closed c \<or> cap c \<le> buffered c) \<longrightarrow>
        SendFrame c f = (False, c))
   \<and> chan_wf (chan (the_conn (exec e evs (start e sid))))"
proof -
  have 1: "chan_closed c \<or> (\<not> waiting c \<and> cap c \<le> buffered c) \<longrightarrow> SendFrame c f = (False, c)"
    by (auto simp: SendFrame_def)
  have 2: "fst (SendFrame c f) = (queue (snd (SendFrame c f)) = queue c @ [f])"
    by (simp add: SendFrame_def)
  have 3: "fst (SendFrame c f) = (\<not> chan_closed c \<and> (waiting c \<or> buffered c < cap c))"
    by (simp add: SendFrame_def)
  have 4: "\<not> fst (SendFrame c f) \<longrightarrow> snd (SendFrame c f) = c"
    by (simp add: SendFrame_def)
  have 5: "cap (snd (SendFrame c f)) = cap c" "chan_closed (snd (SendFrame c f)) = chan_closed c"
    by (simp_all add: SendFrame_def)
  have 6: "chan_wf c \<and> fst (SendFrame c f) \<and> \<not> waiting c \<longrightarrow>
        buffered (snd (SendFrame c f)) = buffered c + 1"
    by (cases "queue c") (auto simp: SendFrame_def buffered_def chan_wf_def)
  have 7: "chan_wf c \<and> fst (SendFrame c f) \<and> waiting c \<longrightarrow>
        buffered (snd (SendFrame c f)) = 0 \<and> queue (snd (SendFrame c f)) = [f]"
    by (auto simp: SendFrame_def buffered_def chan_wf_def)
  have 8: "0 < cap c \<and> chan_wf c \<and> (chan_closed c \<or> cap c \<le> buffered c) \<longrightarrow>
        SendFrame c f = (False, c)"
    by (auto simp: SendFrame_def buffered_def chan_wf_def)
  have 9: "chan_wf (chan (the_conn (exec e evs (start e sid))))"
    by (rule chan_wf_exec) (rule chan_wf_start)
  from 1 2 3 4 5 6 7 8 9 show ?thesis
    by blast
qed

theorem SendFrame_true_iff_passed_witness:
  "cap (snd (SendFrame (NewChanFrameSender 1) (FrameFin 7)))
     \<le> buffered (snd (SendFrame (NewChanFrameSender 1) (FrameFin 7)))
   \<and> chan_wf (snd (SendFrame (NewChanFrameSender 1) (FrameFin 7)))
   \<and> SendFrame (snd (SendFrame (NewChanFrameSender 1) (FrameFin 7))) (FrameAck 7 1)
     = (False, snd (SendFrame (NewChanFrameSender 1) (FrameFin 7)))
   \<and> chan_closed (CloseSend (NewChanFrameSender 1))
   \<and> SendFrame (CloseSend (NewChanFrameSender 1)) (FrameFin 7)
     = (False, CloseSend (NewChanFrameSender 1))
   \<and> fst (SendFrame (NewChanFrameSender 1) (FrameFin 7))
   \<and> buffered (snd (SendFrame (NewChanFrameSender 1) (FrameFin 7))) = 1
   \<and> waiting ((NewChanFrameSender 0)\<lparr>waiting := True\<rparr>)
   \<and> fst (SendFrame ((NewChanFrameSender 0)\<lparr>waiting := True\<rparr>) (FrameFin 7))
   \<and> buffered (snd (SendFrame ((NewChanFrameSender 0)\<lparr>waiting := True\<rparr>) (FrameFin 7))) = 0"
proof -
  let ?new = "NewChanFrameSender 1"
  let ?full = "snd (SendFrame ?new (FrameFin 7))"
  let ?parked = "(NewChanFrameSender 0)\<lparr>waiting := True\<rparr>"
  have new: "chan_wf ?new" "\<not> chan_closed ?new" "\<not> waiting ?new" "buffered ?new < cap ?new"
    "buffered ?new = 0"
    by (simp_all add: NewChanFrameSender_def chan_wf_def buffered_def)
  have full: "cap ?full \<le> buffered ?full" "chan_wf ?full" "0 < cap ?full" "\<not> waiting ?full"
    by (simp_all add: NewChanFrameSender_def SendFrame_def chan_wf_def buffered_def)
  have shut: "chan_closed (CloseSend ?new)"
    by (simp add: CloseSend_def NewChanFrameSender_def)
  have parked: "chan_wf ?parked" "waiting ?parked" "\<not> chan_closed ?parked"
    by (simp_all add: NewChanFrameSender_def chan_wf_def)
  from SendFrame_true_iff_passed [where c = ?full and f = "FrameAck 7 1"] full
  have a: "SendFrame ?full (FrameAck 7 1) = (False, ?full)"
    by blast
  from SendFrame_true_iff_passed [where c = "CloseSend ?new" and f = "FrameFin 7"] shut
  have b: "SendFrame (CloseSend ?new) (FrameFin 7) = (False, CloseSend ?new)"
    by blast
  from SendFrame_true_iff_passed [where c = ?new and f = "FrameFin 7"] new
  have c: "fst (SendFrame ?new (FrameFin 7))"
    and "buffered ?full = buffered ?new + 1"
    by blast+
  with new(5) have d: "buffered ?full = 1"
    by simp
  from SendFrame_true_iff_passed [where c = ?parked and f = "FrameFin 7"] parked
  have e: "fst (SendFrame ?parked (FrameFin 7))"
    and f: "buffered (snd (SendFrame ?parked (FrameFin 7))) = 0"
    by blast+
  from full(1,2) a shut b c d parked(2) e f show ?thesis
    by blast
qed

text \<open>
  Claim C8 as stated fails on an inbox without a buffer: once the worker is
  parked in the receive, the buffer is full (0 frames of 0), yet
  \<^verbatim>\<open>SendFrame\<close> returns true and the frame, which takes no place in the
  buffer, is the one the worker dispatches next.
\<close>

theorem SendFrame_unbuffered_counterexample:
  "cap (chan (fst (Run_pass unbuffered (NewConn unbuffered 7))))
     \<le> buffered (chan (fst (Run_pass unbuffered (NewConn unbuffered 7))))
   \<and> fst (SendFrame (chan (fst (Run_pass unbuffered (NewConn unbuffered 7)))) (FrameFin 7))
   \<and> buffered (snd (SendFrame (chan (fst (Run_pass unbuffered (NewConn unbuffered 7))))
        (FrameFin 7))) = 0
   \<and> fst (deliver (FrameFin 7) (the_conn (exec unbuffered [Work] (start unbuffered 7))))
   \<and> worker (exec unbuffered [Work, Deliver (FrameFin 7), Work] (start unbuffered 7)) = Returned"
  by (simp add: unbuffered_def start_def NewConn_def NewPipe_def NewChanFrameSender_def
      NewDelayDo_def NewSeqWriter_def deliver_def SendFrame_def buffered_def
      Run_pass_def dispatch_def Pipe_Close_def sw_Closed_def Let_def)

text \<open>A closed pipe stays closed under every later write and close.\<close>

lemma pipe_step_closed:
  "Closed p \<and> pr_closed p \<and> pw_closed p \<Longrightarrow>
   Closed (pipe_step x p) \<and> pr_closed (pipe_step x p) \<and> pw_closed (pipe_step x p)"
  by (cases x) (simp_all add: Pipe_Write_def pw_Write_def Pipe_Close_def Let_def)

lemma pipe_run_closed:
  "Closed p \<and> pr_closed p \<and> pw_closed p \<Longrightarrow>
   Closed (pipe_run xs p) \<and> pr_closed (pipe_run xs p) \<and> pw_closed (pipe_run xs p)"
proof (induction xs arbitrary: p)
  case Nil
  then show ?case by simp
next
  case (Cons x xs)
  from Cons.IH [OF pipe_step_closed [OF Cons.prems]] show ?case by simp
qed

text \<open>
  Claim C10. \<^verbatim>\<open>Pipe.Close\<close> returns nil, on a first call and on any later
  one; after a call the flag \<^verbatim>\<open>Closed\<close> is set and both ends are closed,
  and they stay so through every later write and close.
\<close>

theorem Pipe_Close_nil_and_closed:
  "fst (Pipe_Close p) = None
   \<and> Closed (snd (Pipe_Close p)) \<and> pr_closed (snd (Pipe_Close p)) \<and> pw_closed (snd (Pipe_Close p))
   \<and> Pipe_Close (snd (Pipe_Close p)) = (None, snd (Pipe_Close p))
   \<and> Closed (pipe_run ops (snd (Pipe_Close p)))
   \<and> pr_closed (pipe_run ops (snd (Pipe_Close p)))
   \<and> pw_closed (pipe_run ops (snd (Pipe_Close p)))
   \<and> fst (Pipe_Close (pipe_run ops (snd (Pipe_Close p)))) = None"
proof -
  have a: "Closed (snd (Pipe_Close p)) \<and> pr_closed (snd (Pipe_Close p)) \<and> pw_closed (snd (Pipe_Close p))"
    by (simp add: Pipe_Close_def)
  have b: "fst (Pipe_Close q) = None" for q
    by (simp add: Pipe_Close_def)
  have c: "Pipe_Close (snd (Pipe_Close p)) = (None, snd (Pipe_Close p))"
    by (simp add: Pipe_Close_def)
  from a b c pipe_run_closed [OF a, of ops] show ?thesis
    by simp
qed

section \<open>Properties of Conn.Write\<close>

text \<open>
  Claim C9. \<^verbatim>\<open>Write\<close> of an empty slice returns \<open>(0, nil)\<close> and never
  calls the sender: the sender's state is unchanged and the list of chunks
  handed to it stays empty.
\<close>

theorem Conn_Write_empty:
  "Conn_Write send rnd s [] = Some ((0, None), s)
   \<and> Conn_Write (keeping send) rnd (s, []) [] = Some ((0, None), (s, []))"
  by (simp add: Conn_Write_def Write_loop.simps)

text \<open>
  Below \<open>2 ^ 32\<close> bytes the conversion to \<^verbatim>\<open>uint32\<close> keeps the length,
  and the size of the next chunk is positive, at most what remains, and as the
  policy says.
\<close>

lemma chunk_size_bounds:
  assumes "0 < len" "len < 2 ^ 32"
  shows "0 < chunk_size r len \<and> chunk_size r len \<le> len
         \<and> (if len > 8192 then 3072 \<le> chunk_size r len \<and> chunk_size r len < 4096
            else if len > 4096 then chunk_size r len = len div 2
            else chunk_size r len = len)"
proof -
  have "r mod 1024 < 1024" by simp
  moreover have "len mod 2 ^ 32 = len" using assms by simp
  ultimately show ?thesis
    using assms(1) by (auto simp: chunk_size_def Intn_def Let_def)
qed

text \<open>
  The loop on fewer than \<open>2 ^ 32\<close> bytes, from any pass \<open>k\<close>, count
  \<open>n\<close> and chunks kept so far: it returns; the chunks it hands over follow
  the policy and concatenate to a prefix of the data; without an error they
  are all of the data and the count grows by its length; with an error the
  last chunk is the one refused, every chunk before it was accepted, and the
  count grows by the sizes of those.
\<close>

lemma Write_loop_below_4GiB:
  assumes "length data < 2 ^ 32"
  shows "\<exists>n' err s' new.
           Write_loop (keeping send) rnd k (s, log) data n = Some ((n', err), (s', log @ new))
         \<and> policy (length data) (map (\<lambda>x. length (fst x)) new)
         \<and> concat (map fst new) = take (length (concat (map fst new))) data
         \<and> (err = None \<longrightarrow> concat (map fst new) = data \<and> n' = n + length data
                \<and> list_all (\<lambda>x. snd x = None) new)
         \<and> (err \<noteq> None \<longrightarrow> new \<noteq> [] \<and> snd (last new) = err
                \<and> list_all (\<lambda>x. snd x = None) (butlast new)
                \<and> n' = n + length (concat (map fst (butlast new))))"
  using assms
proof (induction "length data" arbitrary: data k s log n rule: less_induct)
  case less
  show ?case
  proof (cases "data = []")
    case True
    then have "Write_loop (keeping send) rnd k (s, log) data n = Some ((n, None), (s, log @ []))"
      by (simp add: Write_loop.simps)
    with True show ?thesis
      by (intro exI [of _ n] exI [of _ None] exI [of _ s] exI [of _ "[]"]) simp
  next
    case False
    define z where "z = chunk_size (rnd k) (length data)"
    define e where "e = fst (send s (take z data))"
    define s1 where "s1 = snd (send s (take z data))"
    have len: "0 < length data" using False by simp
    note zb = chunk_size_bounds [OF len less.prems, of "rnd k", folded z_def]
    have z0: "0 < z" and zle: "z \<le> length data"
      and zpol: "(if length data > 8192 then 3072 \<le> z \<and> z < 4096
            else if length data > 4096 then z = length data div 2
            else z = length data)"
      using zb by blast+
    have ltake: "length (take z data) = z" using zle by simp
    have unfold: "Write_loop (keeping send) rnd k (s, log) data n =
        (if e \<noteq> None then Some ((n, e), (s1, log @ [(take z data, e)]))
         else Write_loop (keeping send) rnd (Suc k) (s1, log @ [(take z data, e)]) (drop z data) (n + z))"
      using len by (subst Write_loop.simps) (simp add: keeping_def Let_def z_def e_def s1_def)
    show ?thesis
    proof (cases "e = None")
      case False
      with unfold have "Write_loop (keeping send) rnd k (s, log) data n
          = Some ((n, e), (s1, log @ [(take z data, e)]))"
        by simp
      with False zpol ltake show ?thesis
        by (intro exI [of _ n] exI [of _ e] exI [of _ s1] exI [of _ "[(take z data, e)]"]) auto
    next
      case True
      have shorter: "length (drop z data) < length data"
        using z0 len by simp
      have small: "length (drop z data) < 2 ^ 32"
        using less.prems by simp
      from less.hyps [OF shorter small, of "Suc k" s1 "log @ [(take z data, e)]" "n + z"]
      obtain n' err s' new where
        r: "Write_loop (keeping send) rnd (Suc k) (s1, log @ [(take z data, e)]) (drop z data) (n + z)
             = Some ((n', err), (s', (log @ [(take z data, e)]) @ new))"
        and pol: "policy (length (drop z data)) (map (\<lambda>x. length (fst x)) new)"
        and pre: "concat (map fst new) = take (length (concat (map fst new))) (drop z data)"
        and ok: "err = None \<longrightarrow> concat (map fst new) = drop z data \<and> n' = n + z + length (drop z data)
                \<and> list_all (\<lambda>x. snd x = None) new"
        and bad: "err \<noteq> None \<longrightarrow> new \<noteq> [] \<and> snd (last new) = err
                \<and> list_all (\<lambda>x. snd x = None) (butlast new)
                \<and> n' = n + z + length (concat (map fst (butlast new)))"
        by blast
      let ?new = "(take z data, e) # new"
      have 1: "Write_loop (keeping send) rnd k (s, log) data n = Some ((n', err), (s', log @ ?new))"
        using unfold True r by simp
      have 2: "policy (length data) (map (\<lambda>x. length (fst x)) ?new)"
        using zpol pol ltake by simp
      have app: "take z data @ take m (drop z data) = take (z + m) data" for m
        by (simp add: take_add)
      have "concat (map fst ?new) = take z data @ take (length (concat (map fst new))) (drop z data)"
        using pre by simp
      also have "\<dots> = take (z + length (concat (map fst new))) data"
        by (rule app)
      also have "z + length (concat (map fst new)) = length (concat (map fst ?new))"
        using ltake by simp
      finally have 3: "concat (map fst ?new) = take (length (concat (map fst ?new))) data" .
      have 4: "err = None \<longrightarrow> concat (map fst ?new) = data \<and> n' = n + length data
                \<and> list_all (\<lambda>x. snd x = None) ?new"
        using ok True zle by simp
      have 5: "err \<noteq> None \<longrightarrow> ?new \<noteq> [] \<and> snd (last ?new) = err
                \<and> list_all (\<lambda>x. snd x = None) (butlast ?new)
                \<and> n' = n + length (concat (map fst (butlast ?new)))"
        using bad True ltake by auto
      from 1 2 3 4 5 show ?thesis
        by blast
    qed
  qed
qed



text \<open>
  On exactly \<open>2 ^ 32\<close> bytes the converted length is 0: each pass hands an
  empty chunk to the sender and keeps all the data, so with a sender that
  accepts every chunk the loop never ends.
\<close>

lemma Write_loop_4GiB_never_returns:
  assumes "length data = 2 ^ 32" and "\<And>s chunk. fst (send s chunk) = None"
  shows "Write_loop send rnd k s data n = None"
proof (rule ccontr)
  assume "Write_loop send rnd k s data n \<noteq> None"
  then obtain y where ret: "Write_loop send rnd k s data n = Some y"
    by auto
  let ?Q = "\<lambda>send data. \<not> (length (data :: byte list) = 2 ^ 32
               \<and> (\<forall>s chunk. fst (send s chunk) = None))"
  have "?Q send data"
  proof (rule Write_loop.raw_induct
      [where P = "\<lambda>send rnd k s data n y. ?Q send data", OF _ ret])
    fix W :: "('a \<Rightarrow> byte list \<Rightarrow> error option \<times> 'a) \<Rightarrow> (nat \<Rightarrow> nat) \<Rightarrow> nat \<Rightarrow> 'a
                \<Rightarrow> byte list \<Rightarrow> nat \<Rightarrow> ((nat \<times> error option) \<times> 'a) option"
      and send rnd k s and data :: "byte list" and n y
    assume IH: "\<And>send rnd k s data n y. W send rnd k s data n = Some y \<Longrightarrow> ?Q send data"
      and body: "(if length data > 0 then
        (let size = chunk_size (rnd k) (length data);
             r = send s (take size data)
         in if fst r \<noteq> None then Some ((n, fst r), snd r)
            else W send rnd (Suc k) (snd r) (drop size data) (n + size))
      else Some ((n, None), s)) = Some y"
    show "?Q send data"
    proof
      assume a: "length data = 2 ^ 32 \<and> (\<forall>s chunk. fst (send s chunk) = None)"
      then have "chunk_size (rnd k) (length data) = 0"
        by (simp add: chunk_size_def)
      with a body have "W send rnd (Suc k) (snd (send s [])) data n = Some y"
        by (simp add: Let_def)
      from IH [OF this] a show False
        by simp
    qed
  qed
  with assms show False by simp
qed

text \<open>
  \<^verbatim>\<open>Write\<close> on a payload of fewer than \<open>2 ^ 32\<close> bytes, with any sender
  and any draws of the generator: it returns, and what it returns and hands
  to the sender is as the chunking policy, the concatenation and the count of
  claim C3 say.
\<close>

lemma Conn_Write_below_4GiB:
  assumes "length data < 2 ^ 32"
  shows "\<exists>n err s' kept.
           Conn_Write (keeping send) rnd (s, []) data = Some ((n, err), (s', kept))
         \<and> policy (length data) (map (\<lambda>x. length (fst x)) kept)
         \<and> concat (map fst kept) = take (length (concat (map fst kept))) data
         \<and> (err = None \<longrightarrow> concat (map fst kept) = data \<and> n = length data
                \<and> list_all (\<lambda>x. snd x = None) kept)
         \<and> (err \<noteq> None \<longrightarrow> kept \<noteq> [] \<and> snd (last kept) = err
                \<and> list_all (\<lambda>x. snd x = None) (butlast kept)
                \<and> n = length (concat (map fst (butlast kept))))"
  using Write_loop_below_4GiB [OF assms, of send rnd 0 s "[]" 0]
  by (simp add: Conn_Write_def)

text \<open>
  Claim C3, at payloads of \<open>2 ^ 32\<close> bytes and more (a slice can be that
  long where Go's \<^verbatim>\<open>int\<close> has 64 bits). With a sender that
  accepts every chunk, \<^verbatim>\<open>Write\<close> of \<open>2 ^ 32\<close> bytes never returns (the
  claim: the chunks concatenate to the whole payload). Of \<open>2 ^ 32 + 5000\<close>
  bytes the first chunk handed to the sender has 2500 bytes (the claim: above
  8 KiB remaining, a size from 3072 to 4095); here the sender refuses it and
  \<^verbatim>\<open>Write\<close> returns at once.
\<close>

theorem Conn_Write_4GiB_payload:
  "Conn_Write (keeping (\<lambda>s chunk. (None, s))) rnd (s, []) (replicate (2 ^ 32) 0) = None
   \<and> Conn_Write (keeping (\<lambda>s chunk. (Some (ErrOther 0), s))) rnd (s, [])
          (replicate (2 ^ 32 + 5000) 0)
        = Some ((0, Some (ErrOther 0)), (s, [(replicate 2500 0, Some (ErrOther 0))]))"
proof -
  have "Write_loop (keeping (\<lambda>s chunk. (None, s))) rnd 0 (s, []) (replicate (2 ^ 32) 0) 0 = None"
    by (rule Write_loop_4GiB_never_returns) (simp_all add: keeping_def)
  moreover have "Conn_Write (keeping (\<lambda>s chunk. (Some (ErrOther 0), s))) rnd (s, [])
          (replicate (2 ^ 32 + 5000) 0)
        = Some ((0, Some (ErrOther 0)), (s, [(replicate 2500 0, Some (ErrOther 0))]))"
    by (simp add: Conn_Write_def Write_loop.simps chunk_size_def keeping_def Let_def)
  ultimately show ?thesis
    by (simp add: Conn_Write_def)
qed

section \<open>The connection's operations on the pipe and the batcher\<close>

lemma remove_port_pipe [simp]: "pipe (remove_port c) = pipe c"
  by (simp add: remove_port_def)

lemma Conn_Close_pipe [simp]: "pipe (snd (Conn_Close e c)) = pipe c"
  by (simp add: Conn_Close_def Let_def)

lemma send_ack_pipe [simp]: "pipe (snd (send_ack e n c)) = pipe c"
  by (simp add: send_ack_def Let_def)

lemma dd_timer_pipe [simp]: "pipe (dd_timer e c) = pipe c"
  by (simp add: dd_timer_def timer_callback_def Let_def)

lemma DelayDo_Add_fst:
  "fst (DelayDo_Add W act (d, w)) = fst (DelayDo_Add W log_call (d, []))"
  by (simp add: DelayDo_Add_def Let_def)

lemma remove_port_dd [simp]: "dd (remove_port c) = dd c"
  by (simp add: remove_port_def)

lemma Conn_Close_dd [simp]: "dd (snd (Conn_Close e c)) = dd c"
  by (simp add: Conn_Close_def Let_def)

lemma CloseAll_dd [simp]: "dd (CloseAll e c) = dd c"
  by (simp add: CloseAll_def Let_def)

lemma dd_Add_dd: "dd (dd_Add e c) = fst (DelayDo_Add (WIN_SIZE e) log_call (dd c, []))"
  by (simp add: dd_Add_def Let_def DelayDo_Add_fst [of _ _ "dd c" c])

lemma dispatch_Data_dd:
  "dd (fst (dispatch e (FrameData i data) c))
     = fst (DelayDo_Add (WIN_SIZE e) log_call (dd c, []))"
  by (simp add: dispatch_def Let_def dd_Add_dd split: option.split error.split)

lemma Pipe_Write_Closed [simp]:
  "Closed (snd (Pipe_Write pw_Write p data)) = Closed p"
  by (simp add: Pipe_Write_def pw_Write_def Let_def)

lemma exec_append: "exec e (xs @ ys) s = exec e ys (exec e xs s)"
  by (induction xs arbitrary: s) simp_all

lemma feed_append: "feed sid (xs @ ys) = feed sid xs @ feed sid ys"
  by (induction xs) simp_all

text \<open>The definitions a closed history is evaluated with.\<close>

lemmas eval_defs = accepting_def start_def NewConn_def NewPipe_def NewChanFrameSender_def
    NewDelayDo_def NewSeqWriter_def deliver_def SendFrame_def buffered_def CloseSend_def
    Run_pass_def dispatch_def dd_Add_def DelayDo_Add_def
    Pipe_Write_def pw_Write_def Pipe_Close_def Conn_Close_def CloseAll_def remove_port_def
    sw_Close_def sw_Closed_def sw_emit_def sw_Ack_def send_ack_def Let_def

section \<open>The batcher inside the connection\<close>

text \<open>
  In a connection the batcher's action is \<^verbatim>\<open>send_ack\<close>, which leaves the
  batcher alone: every step of a history either keeps the batcher, or is one
  \<^verbatim>\<open>Add\<close> (a Data frame dispatched), or one timer callback.
\<close>

lemma dd_inv_fst: "dd_inv W s \<Longrightarrow> dd_inv W (fst s, [])"
  by (simp add: dd_inv_def)

lemma send_ack_dd [simp]: "dd (snd (send_ack e n c)) = dd c"
  by (simp add: send_ack_def Let_def)

lemma dd_timer_dd: "dd (dd_timer e c) = fst (timer_callback log_call (dd c, []))"
  by (simp add: dd_timer_def timer_callback_def Let_def)

lemma dispatch_other_dd:
  "dd (fst (dispatch e (FrameAck i w) c)) = dd c"
  "dd (fst (dispatch e (FrameFin i) c)) = dd c"
  "dd (fst (dispatch e (FrameOther k) c)) = dd c"
  by (simp_all add: dispatch_def Let_def)

lemma dispatch_dd_inv:
  assumes "dd_inv (WIN_SIZE e) (dd c, [])"
  shows "dd_inv (WIN_SIZE e) (dd (fst (dispatch e f c)), [])"
proof (cases f)
  case (FrameData i data)
  have "dd_inv (WIN_SIZE e) (dd_step (WIN_SIZE e) Add (dd c, []))"
    using assms by (rule dd_step_inv)
  then have "dd_inv (WIN_SIZE e) (fst (dd_step (WIN_SIZE e) Add (dd c, [])), [])"
    by (rule dd_inv_fst)
  with FrameData show ?thesis
    by (simp add: dispatch_Data_dd)
qed (simp_all add: dispatch_other_dd assms)

lemma Run_pass_dd_inv:
  assumes "dd_inv (WIN_SIZE e) (dd c, [])"
  shows "dd_inv (WIN_SIZE e) (dd (fst (Run_pass e c)), [])"
proof (cases "queue (chan c)")
  case Nil
  with assms show ?thesis
    by (simp add: Run_pass_def)
next
  case (Cons f q)
  have "dd_inv (WIN_SIZE e) (dd (c\<lparr>chan := (chan c)\<lparr>queue := q, direct := False\<rparr>\<rparr>), [])"
    using assms by simp
  from dispatch_dd_inv [OF this] Cons show ?thesis
    by (simp add: Run_pass_def Let_def)
qed

lemma step_dd_inv:
  assumes "dd_inv (WIN_SIZE e) (dd (the_conn s), [])"
  shows "dd_inv (WIN_SIZE e) (dd (the_conn (step e x s)), [])"
proof (cases x)
  case (Deliver f)
  with assms show ?thesis by (simp add: deliver_def Let_def)
next
  case Work
  with assms Run_pass_dd_inv [OF assms] show ?thesis by simp
next
  case LocalClose
  with assms show ?thesis by simp
next
  case TimerFire
  have "dd_inv (WIN_SIZE e) (dd_step (WIN_SIZE e) Fire (dd (the_conn s), []))"
    using assms by (rule dd_step_inv)
  then have "dd_inv (WIN_SIZE e) (fst (dd_step (WIN_SIZE e) Fire (dd (the_conn s), [])), [])"
    by (rule dd_inv_fst)
  with TimerFire show ?thesis
    by (simp add: dd_timer_dd)
next
  case SessionClose
  with assms show ?thesis by simp
qed

lemma exec_dd_inv:
  "dd_inv (WIN_SIZE e) (dd (the_conn s), []) \<Longrightarrow>
   dd_inv (WIN_SIZE e) (dd (the_conn (exec e evs s)), [])"
  by (induction evs arbitrary: s) (simp_all add: step_dd_inv)

text \<open>
  Claim C6. In every state a batcher reaches from \<^verbatim>\<open>NewDelayDo\<close> by
  \<^verbatim>\<open>Add\<close> calls and timer callbacks, a timer is set (\<^verbatim>\<open>d.timer\<close> is not
  nil) if and only if the pending count is greater than zero and below the
  threshold; and so it is for the batcher of a connection in every state the
  connection reaches from \<^verbatim>\<open>NewConn\<close>.
\<close>

theorem DelayDo_timer_iff_pending:
  "timer (fst (dd_run W evs (NewDelayDo dl, [])))
     = (0 < cnt (fst (dd_run W evs (NewDelayDo dl, [])))
        \<and> cnt (fst (dd_run W evs (NewDelayDo dl, []))) < W)
   \<and> timer (dd (the_conn (exec e hist (start e sid))))
     = (0 < cnt (dd (the_conn (exec e hist (start e sid))))
        \<and> cnt (dd (the_conn (exec e hist (start e sid)))) < WIN_SIZE e)"
proof -
  have "dd_inv W (dd_run W evs (NewDelayDo dl, []))"
    by (rule dd_run_inv) (rule dd_inv_New)
  then have a: "timer (fst (dd_run W evs (NewDelayDo dl, [])))
     = (0 < cnt (fst (dd_run W evs (NewDelayDo dl, [])))
        \<and> cnt (fst (dd_run W evs (NewDelayDo dl, []))) < W)"
    by (auto simp: dd_inv_def)
  have "dd_inv (WIN_SIZE e) (dd (the_conn (start e sid)), [])"
    by (simp add: start_def NewConn_def dd_inv_New)
  then have "dd_inv (WIN_SIZE e) (dd (the_conn (exec e hist (start e sid))), [])"
    by (rule exec_dd_inv)
  then have b: "timer (dd (the_conn (exec e hist (start e sid))))
     = (0 < cnt (dd (the_conn (exec e hist (start e sid))))
        \<and> cnt (dd (the_conn (exec e hist (start e sid)))) < WIN_SIZE e)"
    by (auto simp: dd_inv_def)
  from a b show ?thesis
    by (rule conjI)
qed

section \<open>The dispatch loop and the ack batcher\<close>

lemma fed_step:
  assumes "0 < CHANLEN e" and "int (length ds) + 1 < WIN_SIZE e"
  shows "exec e [Deliver (FrameData sid d), Work] (fed e sid ds) = fed e sid (ds @ [d])"
  using assms
  by (simp add: fed_def NewConn_def NewPipe_def NewChanFrameSender_def
    NewDelayDo_def NewSeqWriter_def deliver_def SendFrame_def buffered_def
    Run_pass_def dispatch_def dd_Add_def DelayDo_Add_def
    Pipe_Write_def pw_Write_def Let_def)

lemma feed_state:
  assumes "0 < CHANLEN e" and "int (length ds) < WIN_SIZE e"
  shows "exec e (feed sid ds) (start e sid) = fed e sid ds"
  using assms(2)
proof (induction ds rule: rev_induct)
  case Nil
  show ?case
    by (simp add: fed_def start_def NewConn_def NewPipe_def NewDelayDo_def)
next
  case (snoc d ds)
  then have "exec e (feed sid ds) (start e sid) = fed e sid ds"
    and "int (length ds) + 1 < WIN_SIZE e"
    by simp_all
  with fed_step [OF assms(1), of ds sid d] show ?case
    by (simp add: feed_append exec_append)
qed

lemma fed_last:
  assumes "0 < CHANLEN e" and "int (length ds) + 1 = WIN_SIZE e"
    and "tx e [] (FrameAck sid (word_of_int (WIN_SIZE e))) = None"
  shows "the_conn (exec e [Deliver (FrameData sid d), Work] (fed e sid ds))
    = (NewConn e sid)
        \<lparr>pipe := NewPipe\<lparr>passed := concat (ds @ [d])\<rparr>,
         sw := NewSeqWriter\<lparr>sw_sent := [FrameAck sid (word_of_int (WIN_SIZE e))]\<rparr>\<rparr>"
  using assms
  by (simp add: fed_def NewConn_def NewPipe_def NewChanFrameSender_def
    NewDelayDo_def NewSeqWriter_def deliver_def SendFrame_def buffered_def
    Run_pass_def dispatch_def dd_Add_def DelayDo_Add_def send_ack_def sw_Ack_def sw_emit_def
    Pipe_Write_def pw_Write_def Let_def)


text \<open>
  Claim C1, as amended. For every Data frame the dispatch loop processes,
  the batcher is advanced by one \<^verbatim>\<open>Add\<close>, whatever the payload holds: the
  batcher counts frames, not bytes. From a new connection, fewer Data frames
  than the threshold leave as many counts pending with the timer set and no
  ack sent; with as many frames as the threshold, an ack with the threshold
  as its count has been handed to the sender right after the last frame and
  the pending count is zero again.
\<close>

theorem Data_frame_is_one_Add:
  "dd (fst (dispatch e (FrameData i data) c))
     = fst (DelayDo_Add (WIN_SIZE e) log_call (dd c, []))
   \<and> (0 < CHANLEN e \<and> int (length ds) < WIN_SIZE e \<longrightarrow>
        cnt (dd (the_conn (exec e (feed sid ds) (start e sid)))) = int (length ds)
        \<and> timer (dd (the_conn (exec e (feed sid ds) (start e sid)))) = (ds \<noteq> [])
        \<and> sw_sent (sw (the_conn (exec e (feed sid ds) (start e sid)))) = []
        \<and> passed (pipe (the_conn (exec e (feed sid ds) (start e sid)))) = concat ds)
   \<and> (0 < CHANLEN e \<and> 0 < WIN_SIZE e \<and> int (length ds) = WIN_SIZE e
        \<and> tx e [] (FrameAck sid (word_of_int (WIN_SIZE e))) = None \<longrightarrow>
        cnt (dd (the_conn (exec e (feed sid ds) (start e sid)))) = 0
        \<and> \<not> timer (dd (the_conn (exec e (feed sid ds) (start e sid))))
        \<and> sw_sent (sw (the_conn (exec e (feed sid ds) (start e sid))))
             = [FrameAck sid (word_of_int (WIN_SIZE e))]
        \<and> passed (pipe (the_conn (exec e (feed sid ds) (start e sid)))) = concat ds)"
proof (intro conjI impI)
  show "dd (fst (dispatch e (FrameData i data) c))
     = fst (DelayDo_Add (WIN_SIZE e) log_call (dd c, []))"
    by (rule dispatch_Data_dd)
next
  assume a: "0 < CHANLEN e \<and> int (length ds) < WIN_SIZE e"
  then have st: "exec e (feed sid ds) (start e sid) = fed e sid ds"
    by (simp add: feed_state)
  show "cnt (dd (the_conn (exec e (feed sid ds) (start e sid)))) = int (length ds)"
    by (simp add: st fed_def)
  show "timer (dd (the_conn (exec e (feed sid ds) (start e sid)))) = (ds \<noteq> [])"
    by (simp add: st fed_def)
  show "sw_sent (sw (the_conn (exec e (feed sid ds) (start e sid)))) = []"
    by (simp add: st fed_def NewConn_def NewSeqWriter_def)
  show "passed (pipe (the_conn (exec e (feed sid ds) (start e sid)))) = concat ds"
    by (simp add: st fed_def)
next
  assume a: "0 < CHANLEN e \<and> 0 < WIN_SIZE e \<and> int (length ds) = WIN_SIZE e
        \<and> tx e [] (FrameAck sid (word_of_int (WIN_SIZE e))) = None"
  then have "ds \<noteq> []" by auto
  then obtain ds' d where ds: "ds = ds' @ [d]"
    by (metis rev_exhaust)
  with a have len: "int (length ds') + 1 = WIN_SIZE e" and lt: "int (length ds') < WIN_SIZE e"
    by simp_all
  have "exec e (feed sid ds) (start e sid)
      = exec e [Deliver (FrameData sid d), Work] (exec e (feed sid ds') (start e sid))"
    by (simp add: ds feed_append exec_append)
  also have "exec e (feed sid ds') (start e sid) = fed e sid ds'"
    using a lt by (simp add: feed_state)
  finally have "the_conn (exec e (feed sid ds) (start e sid))
      = (NewConn e sid)
        \<lparr>pipe := NewPipe\<lparr>passed := concat ds\<rparr>,
         sw := NewSeqWriter\<lparr>sw_sent := [FrameAck sid (word_of_int (WIN_SIZE e))]\<rparr>\<rparr>"
    using fed_last [of e ds' sid d] a len by (simp add: ds)
  then show "cnt (dd (the_conn (exec e (feed sid ds) (start e sid)))) = 0"
    and "\<not> timer (dd (the_conn (exec e (feed sid ds) (start e sid))))"
    and "sw_sent (sw (the_conn (exec e (feed sid ds) (start e sid))))
             = [FrameAck sid (word_of_int (WIN_SIZE e))]"
    and "passed (pipe (the_conn (exec e (feed sid ds) (start e sid)))) = concat ds"
    by (simp_all add: NewConn_def NewDelayDo_def)
qed

theorem Data_frame_is_one_Add_witness:
  "0 < CHANLEN (accepting 2) \<and> int (length [replicate 10 (0::byte)]) < WIN_SIZE (accepting 2)
   \<and> cnt (dd (the_conn (exec (accepting 2) (feed 7 [replicate 10 0]) (start (accepting 2) 7)))) = 1
   \<and> sw_sent (sw (the_conn (exec (accepting 2) (feed 7 [replicate 10 0])
        (start (accepting 2) 7)))) = []
   \<and> int (length [replicate 10 (0::byte), replicate 20 0]) = WIN_SIZE (accepting 2)
   \<and> tx (accepting 2) [] (FrameAck 7 (word_of_int (WIN_SIZE (accepting 2)))) = None
   \<and> cnt (dd (the_conn (exec (accepting 2) (feed 7 [replicate 10 0, replicate 20 0])
        (start (accepting 2) 7)))) = 0
   \<and> sw_sent (sw (the_conn (exec (accepting 2) (feed 7 [replicate 10 0, replicate 20 0])
        (start (accepting 2) 7)))) = [FrameAck 7 2]"
proof -
  have e: "0 < CHANLEN (accepting 2)" "WIN_SIZE (accepting 2) = 2"
    "tx (accepting 2) [] (FrameAck 7 (word_of_int (WIN_SIZE (accepting 2)))) = None"
    by (simp_all add: accepting_def)
  note one = Data_frame_is_one_Add
    [where e = "accepting 2" and sid = 7 and ds = "[replicate 10 0]"]
  note two = Data_frame_is_one_Add
    [where e = "accepting 2" and sid = 7 and ds = "[replicate 10 0, replicate 20 0]"]
  have a: "cnt (dd (the_conn (exec (accepting 2) (feed 7 [replicate 10 0])
        (start (accepting 2) 7)))) = 1"
    and b: "sw_sent (sw (the_conn (exec (accepting 2) (feed 7 [replicate 10 0])
        (start (accepting 2) 7)))) = []"
    using one e by simp_all
  have c: "cnt (dd (the_conn (exec (accepting 2) (feed 7 [replicate 10 0, replicate 20 0])
        (start (accepting 2) 7)))) = 0"
    and d: "sw_sent (sw (the_conn (exec (accepting 2) (feed 7 [replicate 10 0, replicate 20 0])
        (start (accepting 2) 7)))) = [FrameAck 7 2]"
    using two e by simp_all
  from a b c d e show ?thesis
    by simp
qed

text \<open>
  Claim C1 as stated fails: with threshold 30, after Data frames of 10 and 20
  bytes no ack has been sent and two counts are pending; after a third frame
  of 5 bytes three counts are pending, not five.
\<close>

theorem Data_frames_10_20_5_counterexample:
  "sw_sent (sw (the_conn (exec (accepting 30) (feed 7 [replicate 10 0, replicate 20 0])
      (start (accepting 30) 7)))) \<noteq> [FrameAck 7 30]
   \<and> sw_sent (sw (the_conn (exec (accepting 30) (feed 7 [replicate 10 0, replicate 20 0])
      (start (accepting 30) 7)))) = []
   \<and> cnt (dd (the_conn (exec (accepting 30) (feed 7 [replicate 10 0, replicate 20 0])
      (start (accepting 30) 7)))) = 2
   \<and> cnt (dd (the_conn (exec (accepting 30)
      (feed 7 [replicate 10 0, replicate 20 0, replicate 5 0]) (start (accepting 30) 7)))) \<noteq> 5
   \<and> cnt (dd (the_conn (exec (accepting 30)
      (feed 7 [replicate 10 0, replicate 20 0, replicate 5 0]) (start (accepting 30) 7)))) = 3"
  by (simp add: eval_defs)

section \<open>The dispatch loop on a Fin frame\<close>

text \<open>Once \<^verbatim>\<open>Run\<close> has returned, no later step passes bytes into the pipe.\<close>

lemma Returned_step:
  "worker s = Returned \<Longrightarrow>
   worker (step e x s) = Returned \<and> pipe (the_conn (step e x s)) = pipe (the_conn s)"
  by (cases x) (simp_all add: deliver_def Let_def)

lemma Returned_exec:
  "worker s = Returned \<Longrightarrow>
   worker (exec e evs s) = Returned \<and> pipe (the_conn (exec e evs s)) = pipe (the_conn s)"
proof (induction evs arbitrary: s)
  case Nil
  then show ?case by simp
next
  case (Cons x xs)
  from Returned_step [OF Cons.prems, of e x] Cons.IH [of "step e x s"] show ?case
    by simp
qed



lemma dispatch_Fin:
  "dispatch e (FrameFin i) c =
     (let c1 = c\<lparr>pipe := snd (Pipe_Close (pipe c))\<rparr>
      in (if sw_Closed (sw c1) then remove_port c1 else c1, False))"
  by (simp add: dispatch_def)

lemma Run_pass_Fin:
  assumes "queue (chan c) = FrameFin i # q"
  shows "snd (Run_pass e c) = Returned"
    and "pipe (fst (Run_pass e c)) = snd (Pipe_Close (pipe c))"
    and "queue (chan (fst (Run_pass e c))) = q"
    and "sw (fst (Run_pass e c)) = sw c"
    and "removefunc (fst (Run_pass e c)) = (removefunc c \<or> sw_closed (sw c))"
    and "RemovePorts (fst (Run_pass e c))
           = (if sw_closed (sw c) \<and> \<not> removefunc c then RemovePorts c @ [streamid c]
              else RemovePorts c)"
proof -
  let ?c0 = "c\<lparr>chan := (chan c)\<lparr>queue := q, direct := False\<rparr>\<rparr>"
  let ?c1 = "?c0\<lparr>pipe := snd (Pipe_Close (pipe c))\<rparr>"
  have rp: "Run_pass e c = (if sw_closed (sw c) then remove_port ?c1 else ?c1, Returned)"
    using assms by (simp add: Run_pass_def dispatch_Fin Let_def sw_Closed_def)
  show "snd (Run_pass e c) = Returned"
    by (simp add: rp)
  show "pipe (fst (Run_pass e c)) = snd (Pipe_Close (pipe c))"
    by (simp add: rp remove_port_def)
  show "queue (chan (fst (Run_pass e c))) = q"
    by (simp add: rp remove_port_def CloseSend_def)
  show "sw (fst (Run_pass e c)) = sw c"
    by (simp add: rp remove_port_def)
  show "removefunc (fst (Run_pass e c)) = (removefunc c \<or> sw_closed (sw c))"
    by (simp add: rp remove_port_def)
  show "RemovePorts (fst (Run_pass e c))
           = (if sw_closed (sw c) \<and> \<not> removefunc c then RemovePorts c @ [streamid c]
              else RemovePorts c)"
    by (simp add: rp remove_port_def)
qed


text \<open>
  Claim C2, as amended. When the dispatch loop receives a Fin frame it
  closes the pipe; it removes the stream from the session exactly when the
  sender is already closed (and the guard has not run); and \<^verbatim>\<open>Run\<close>
  returns in both cases: the frames behind the Fin stay in the inbox and no
  later step of any history passes bytes into the pipe.
\<close>

theorem Fin_closes_pipe_and_returns:
  assumes "queue (chan c) = FrameFin i # q"
  shows "Run e c = Run_pass e c
       \<and> snd (Run e c) = Returned
       \<and> Closed (pipe (fst (Run e c)))
       \<and> pr_closed (pipe (fst (Run e c)))
       \<and> pw_closed (pipe (fst (Run e c)))
       \<and> queue (chan (fst (Run e c))) = q
       \<and> sw (fst (Run e c)) = sw c
       \<and> removefunc (fst (Run e c)) = (removefunc c \<or> sw_closed (sw c))
       \<and> RemovePorts (fst (Run e c))
           = (if sw_closed (sw c) \<and> \<not> removefunc c then RemovePorts c @ [streamid c]
              else RemovePorts c)
       \<and> worker (exec e (Work # evs) \<lparr>the_conn = c, worker = Receiving, closes = rs\<rparr>)
           = Returned
       \<and> pipe (the_conn (exec e (Work # evs) \<lparr>the_conn = c, worker = Receiving, closes = rs\<rparr>))
           = pipe (fst (Run e c))"
proof -
  note fin = Run_pass_Fin [OF assms, of e]
  have run: "Run e c = Run_pass e c"
    by (subst Run.simps) (simp add: Let_def fin(1))
  let ?s = "step e Work \<lparr>the_conn = c, worker = Receiving, closes = rs\<rparr>"
  have w: "worker ?s = Returned"
    by (simp add: fin(1))
  have p: "pipe (the_conn ?s) = pipe (fst (Run_pass e c))"
    by simp
  have ex: "exec e (Work # evs) \<lparr>the_conn = c, worker = Receiving, closes = rs\<rparr> = exec e evs ?s"
    by simp
  from Returned_exec [OF w, of e evs] p
  have late: "worker (exec e evs ?s) = Returned
    \<and> pipe (the_conn (exec e evs ?s)) = pipe (fst (Run_pass e c))"
    by simp
  have flags: "Closed (pipe (fst (Run_pass e c))) \<and> pr_closed (pipe (fst (Run_pass e c)))
    \<and> pw_closed (pipe (fst (Run_pass e c)))"
    by (simp add: fin(2) Pipe_Close_def)
  show ?thesis
    unfolding ex run using late flags fin(1,3,4,5,6) by blast
qed

theorem Fin_closes_pipe_and_returns_witness:
  "queue (chan fin_then_data) = [FrameFin 7, FrameData 7 [1]]
   \<and> \<not> sw_closed (sw fin_then_data)
   \<and> snd (Run (accepting 30) fin_then_data) = Returned
   \<and> Closed (pipe (fst (Run (accepting 30) fin_then_data)))
   \<and> queue (chan (fst (Run (accepting 30) fin_then_data))) = [FrameData 7 [1]]
   \<and> RemovePorts (fst (Run (accepting 30) fin_then_data)) = []"
proof -
  have h: "queue (chan fin_then_data) = FrameFin 7 # [FrameData 7 [1]]"
    by (simp add: fin_then_data_def accepting_def NewConn_def NewChanFrameSender_def
        deliver_def SendFrame_def buffered_def Let_def)
  have s: "\<not> sw_closed (sw fin_then_data)" "RemovePorts fin_then_data = []"
    by (simp_all add: fin_then_data_def accepting_def NewConn_def NewSeqWriter_def
        deliver_def Let_def)
  note inst = Fin_closes_pipe_and_returns
    [OF h, where e = "accepting 30" and evs = "[]" and rs = "[]"]
  have a: "snd (Run (accepting 30) fin_then_data) = Returned"
    using inst by blast
  have b: "Closed (pipe (fst (Run (accepting 30) fin_then_data)))"
    using inst by blast
  have c: "queue (chan (fst (Run (accepting 30) fin_then_data))) = [FrameData 7 [1]]"
    using inst by blast
  have "RemovePorts (fst (Run (accepting 30) fin_then_data)) =
    (if sw_closed (sw fin_then_data) \<and> \<not> removefunc fin_then_data
     then RemovePorts fin_then_data @ [streamid fin_then_data]
     else RemovePorts fin_then_data)"
    using inst by blast
  with s have d: "RemovePorts (fst (Run (accepting 30) fin_then_data)) = []"
    by simp
  from h s(1) a b c d show ?thesis
    by simp
qed

text \<open>
  Claim C2 as stated fails: with the sender still open, \<^verbatim>\<open>Run\<close> has
  returned after the Fin frame, and a Data frame delivered afterwards stays in
  the inbox whatever the worker is asked to do.
\<close>

theorem Fin_with_open_sender_counterexample:
  "\<not> sw_closed (sw (the_conn (exec (accepting 30) [Deliver (FrameFin 7)] (start (accepting 30) 7))))
   \<and> worker (exec (accepting 30) [Deliver (FrameFin 7), Work] (start (accepting 30) 7)) = Returned
   \<and> queue (chan (the_conn (exec (accepting 30)
        [Deliver (FrameFin 7), Work, Deliver (FrameData 7 [1]), Work, Work]
        (start (accepting 30) 7)))) = [FrameData 7 [1]]
   \<and> passed (pipe (the_conn (exec (accepting 30)
        [Deliver (FrameFin 7), Work, Deliver (FrameData 7 [1]), Work, Work]
        (start (accepting 30) 7)))) = []"
  by code_simp

section \<open>Close and the removal guard\<close>

lemma conn_inv_dd [simp]: "conn_inv sid b (c\<lparr>dd := d\<rparr>) = conn_inv sid b c"
  by (simp add: conn_inv_def)

lemma conn_inv_chan [simp]: "conn_inv sid b (c\<lparr>chan := ch\<rparr>) = conn_inv sid b c"
  by (simp add: conn_inv_def)

lemma conn_inv_weaken: "conn_inv sid True c \<Longrightarrow> conn_inv sid b c"
  by (simp add: conn_inv_def)

lemma conn_inv_remove_port:
  "conn_inv sid b c \<Longrightarrow> conn_inv sid b (remove_port c) \<and> removefunc (remove_port c)"
  by (simp add: conn_inv_def remove_port_def)

lemma sw_Close_closed: "sw_closed (snd (sw_Close t i s))"
  by (simp add: sw_Close_def sw_emit_def)

lemma conn_inv_sw_Close:
  "conn_inv sid b c \<Longrightarrow> conn_inv sid b (c\<lparr>sw := snd (sw_Close t i (sw c))\<rparr>)"
  by (simp add: conn_inv_def sw_Close_closed)

lemma conn_inv_sw_Close_True:
  "conn_inv sid b c \<Longrightarrow> \<not> Closed (pipe c) \<or> removefunc c \<Longrightarrow>
   conn_inv sid True (c\<lparr>sw := snd (sw_Close t i (sw c))\<rparr>)"
  by (auto simp: conn_inv_def sw_Close_closed)

lemma conn_inv_Conn_Close:
  "conn_inv sid b c \<Longrightarrow> conn_inv sid b (snd (Conn_Close e c))"
  by (simp add: Conn_Close_def Let_def conn_inv_sw_Close conn_inv_remove_port)

lemma conn_inv_Conn_Close_nil:
  assumes "conn_inv sid b c" and "fst (Conn_Close e c) = None"
  shows "conn_inv sid True (snd (Conn_Close e c))"
proof -
  let ?c1 = "c\<lparr>sw := snd (sw_Close (tx e) (streamid c) (sw c))\<rparr>"
  have c1: "conn_inv sid b ?c1"
    using assms(1) by (rule conn_inv_sw_Close)
  have res: "snd (Conn_Close e c) = (if Closed (pipe ?c1) then remove_port ?c1 else ?c1)"
    using assms(2) by (simp add: Conn_Close_def Let_def split: if_splits)
  show ?thesis
  proof (cases "Closed (pipe c)")
    case True
    from conn_inv_remove_port [OF c1] have "conn_inv sid b (remove_port ?c1)"
      and "removefunc (remove_port ?c1)" by simp_all
    moreover have "sw_closed (sw (remove_port ?c1))"
      by (simp add: remove_port_def sw_Close_closed)
    ultimately have "conn_inv sid True (remove_port ?c1)"
      by (simp add: conn_inv_def)
    with True res show ?thesis by simp
  next
    case False
    with c1 have "conn_inv sid True ?c1"
      by (simp add: conn_inv_def sw_Close_closed)
    with False res show ?thesis by simp
  qed
qed

lemma conn_inv_CloseAll:
  "conn_inv sid b c \<Longrightarrow> conn_inv sid b (CloseAll e c) \<and> removefunc (CloseAll e c)"
proof -
  assume a: "conn_inv sid b c"
  let ?c2 = "(c\<lparr>sw := snd (sw_Close (tx e) (streamid c) (sw c))\<rparr>)
               \<lparr>pipe := snd (Pipe_Close (pipe c))\<rparr>"
  have "CloseAll e c = remove_port ?c2"
    by (simp add: CloseAll_def Let_def)
  moreover have "removefunc (remove_port ?c2)"
    by (simp add: remove_port_def)
  moreover have "conn_inv sid b (remove_port ?c2)"
    using a by (simp add: conn_inv_def remove_port_def sw_Close_closed)
  ultimately show ?thesis by simp
qed

lemma conn_inv_send_ack:
  "conn_inv sid b c \<Longrightarrow> conn_inv sid b (snd (send_ack e n c))"
proof -
  assume a: "conn_inv sid b c"
  let ?c1 = "c\<lparr>sw := snd (sw_Ack (tx e) (streamid c) (word_of_int n) (sw c))\<rparr>"
  have "conn_inv sid b ?c1"
    using a by (simp add: conn_inv_def sw_Ack_def sw_emit_def)
  then have "conn_inv sid b (snd (Conn_Close e ?c1))"
    by (rule conn_inv_Conn_Close)
  with \<open>conn_inv sid b ?c1\<close> show ?thesis
    by (simp add: send_ack_def Let_def)
qed

lemma conn_inv_dd_Add: "conn_inv sid b c \<Longrightarrow> conn_inv sid b (dd_Add e c)"
  by (simp add: dd_Add_def DelayDo_Add_def Let_def conn_inv_send_ack)

lemma conn_inv_dd_timer: "conn_inv sid b c \<Longrightarrow> conn_inv sid b (dd_timer e c)"
  by (simp add: dd_timer_def timer_callback_def Let_def conn_inv_send_ack)


lemma conn_inv_pipe_write:
  "conn_inv sid b c \<Longrightarrow> conn_inv sid b (c\<lparr>pipe := snd (Pipe_Write pw_Write (pipe c) data)\<rparr>)"
  by (simp add: conn_inv_def)

lemma conn_inv_Fin:
  "conn_inv sid b c \<Longrightarrow>
   conn_inv sid b (let c1 = c\<lparr>pipe := snd (Pipe_Close (pipe c))\<rparr>
                   in if sw_Closed (sw c1) then remove_port c1 else c1)"
  by (auto simp: conn_inv_def Let_def remove_port_def sw_Closed_def Pipe_Close_def)

lemma conn_inv_Release:
  "conn_inv sid b c \<Longrightarrow> conn_inv sid b (c\<lparr>sw := snd (sw_Release w (sw c))\<rparr>)"
  by (simp add: conn_inv_def sw_Release_def)

lemma conn_inv_dispatch:
  assumes "conn_inv sid b c"
  shows "conn_inv sid b (fst (dispatch e f c))"
proof (cases f)
  case (FrameData i data)
  let ?c1 = "dd_Add e c"
  let ?c2 = "?c1\<lparr>pipe := snd (Pipe_Write pw_Write (pipe ?c1) data)\<rparr>"
  have "conn_inv sid b ?c1"
    using assms by (rule conn_inv_dd_Add)
  then have c2: "conn_inv sid b ?c2"
    by (rule conn_inv_pipe_write)
  then have "conn_inv sid b (CloseAll e ?c2)"
    by (simp add: conn_inv_CloseAll)
  with c2 FrameData show ?thesis
    by (simp add: dispatch_def Let_def split: option.split error.split)
next
  case (FrameAck i w)
  with conn_inv_Release [OF assms] show ?thesis
    by (simp add: dispatch_def)
next
  case (FrameFin i)
  with conn_inv_Fin [OF assms] show ?thesis
    by (simp add: dispatch_def Let_def)
next
  case (FrameOther k)
  with conn_inv_CloseAll [OF assms] show ?thesis
    by (simp add: dispatch_def)
qed

lemma conn_inv_Run_pass:
  assumes "conn_inv sid b c"
  shows "conn_inv sid b (fst (Run_pass e c))"
proof (cases "queue (chan c)")
  case Nil
  with assms conn_inv_CloseAll [OF assms] show ?thesis
    by (simp add: Run_pass_def)
next
  case (Cons f q)
  have "conn_inv sid b (c\<lparr>chan := (chan c)\<lparr>queue := q, direct := False\<rparr>\<rparr>)"
    using assms by simp
  from conn_inv_dispatch [OF this] Cons show ?thesis
    by (simp add: Run_pass_def Let_def)
qed

lemma conn_inv_step:
  assumes "conn_inv sid (None \<in> set (closes s)) (the_conn s)"
  shows "conn_inv sid (None \<in> set (closes (step e x s))) (the_conn (step e x s))"
proof (cases x)
  case (Deliver f)
  with assms show ?thesis by (simp add: deliver_def Let_def)
next
  case Work
  with assms conn_inv_Run_pass [OF assms] show ?thesis by simp
next
  case LocalClose
  show ?thesis
  proof (cases "fst (Conn_Close e (the_conn s)) = None")
    case True
    then have "(None \<in> set (closes (step e LocalClose s))) = True"
      by simp
    with conn_inv_Conn_Close_nil [OF assms True] LocalClose show ?thesis
      by simp
  next
    case False
    then have "(None \<in> set (closes (step e LocalClose s))) = (None \<in> set (closes s))"
      by auto
    with conn_inv_Conn_Close [OF assms, of e] LocalClose show ?thesis
      by simp
  qed
next
  case TimerFire
  with conn_inv_dd_timer [OF assms] show ?thesis by simp
next
  case SessionClose
  with assms show ?thesis by simp
qed

lemma conn_inv_exec:
  "conn_inv sid (None \<in> set (closes s)) (the_conn s) \<Longrightarrow>
   conn_inv sid (None \<in> set (closes (exec e evs s))) (the_conn (exec e evs s))"
  by (induction evs arbitrary: s) (simp_all add: conn_inv_step)

lemma conn_inv_start: "conn_inv sid (None \<in> set (closes (start e sid))) (the_conn (start e sid))"
  by (simp add: conn_inv_def start_def NewConn_def)

lemma Conn_Close_twice:
  assumes "fst (sw_Close (tx e) (streamid c) (sw c)) = None
             \<or> fst (sw_Close (tx e) (streamid c) (sw c)) = Some EOF"
  shows "fst (Conn_Close e c) = None \<and> fst (Conn_Close e (snd (Conn_Close e c))) = None"
proof -
  have first: "fst (Conn_Close e c) = None"
    using assms by (auto simp: Conn_Close_def Let_def)
  have "sw_closed (sw (snd (Conn_Close e c)))"
    by (simp add: Conn_Close_def Let_def remove_port_def sw_Close_closed)
  then have "fst (Conn_Close e (snd (Conn_Close e c))) = None"
    by (simp add: Conn_Close_def sw_Close_def Let_def)
  with first show ?thesis by simp
qed

text \<open>
  A sender error other than "already closed" is what \<^verbatim>\<open>Close\<close> returns, at
  once: the pipe is not tested and the stream is not removed.
\<close>

lemma Conn_Close_refused:
  assumes "fst (sw_Close (tx e) (streamid c) (sw c)) \<noteq> None"
    and "fst (sw_Close (tx e) (streamid c) (sw c)) \<noteq> Some EOF"
  shows "fst (Conn_Close e c) = fst (sw_Close (tx e) (streamid c) (sw c))"
    and "RemovePorts (snd (Conn_Close e c)) = RemovePorts c"
    and "removefunc (snd (Conn_Close e c)) = removefunc c"
  using assms by (simp_all add: Conn_Close_def Let_def)

text \<open>
  \<^verbatim>\<open>Close\<close> and the Fin branch are their parts run in order; and when they
  run together, in any of the six interleavings, with the sender reporting
  success or "already closed", the stream is removed exactly once.
\<close>

lemma Conn_Close_parts:
  "Conn_Close e c =
     (if fst (Close_sender e c) \<noteq> None then Close_sender e c
      else (None, Close_check (snd (Close_sender e c))))"
  by (simp add: Conn_Close_def Close_sender_def Close_check_def Let_def)

lemma dispatch_Fin_parts:
  "dispatch e (FrameFin i) c = (Fin_check (Fin_pipe c), False)"
  by (simp add: dispatch_def Fin_check_def Fin_pipe_def Let_def)

lemma Close_sender_frame:
  "pipe (snd (Close_sender e c)) = pipe c" "removefunc (snd (Close_sender e c)) = removefunc c"
  "RemovePorts (snd (Close_sender e c)) = RemovePorts c"
  "streamid (snd (Close_sender e c)) = streamid c"
  "sw_closed (sw (snd (Close_sender e c)))"
  by (simp_all add: Close_sender_def Let_def sw_Close_def sw_emit_def)

lemma Close_and_Fin_interleaved:
  assumes "ms \<in> set interleavings"
    and "\<not> removefunc c"
    and "fst (Close_sender e c) = None"
  shows "RemovePorts (fst (parts e ms (c, None))) = RemovePorts c @ [streamid c]"
proof -
  have same: "fst (Close_sender e (Fin_pipe c)) = None"
    "fst (Close_sender e (Fin_check (Fin_pipe c))) = None"
    using assms(3)
    by (auto simp: Close_sender_def Fin_pipe_def Fin_check_def remove_port_def Let_def
        split: if_splits)
  show ?thesis
    using assms same
    by (auto simp: interleavings_def Close_sender_frame Close_check_def Fin_pipe_def
        Fin_check_def sw_Closed_def remove_port_def Pipe_Close_def)
qed

text \<open>
  Claim C4, as amended. When the sender reports success or "already
  closed", \<^verbatim>\<open>Close\<close> returns nil, and so does a second \<^verbatim>\<open>Close\<close>; any
  other error of the sender is returned by \<^verbatim>\<open>Close\<close> at once, without
  removing the stream. In every history of a connection (deliveries, passes
  of the dispatch loop, calls of \<^verbatim>\<open>Close\<close>, timer callbacks, the session
  closing the inbox, in any order) the session's \<^verbatim>\<open>RemovePorts\<close> has been
  called once if the guard has run and never otherwise; it has been called
  exactly once as soon as a \<^verbatim>\<open>Close\<close> has succeeded and the pipe is closed,
  whichever came first; and a full teardown from any state of the history
  leaves exactly one call.
\<close>

theorem Close_twice_and_remove_once:
  "(fst (sw_Close (tx e) (streamid c) (sw c)) = None
      \<or> fst (sw_Close (tx e) (streamid c) (sw c)) = Some EOF \<longrightarrow>
      fst (Conn_Close e c) = None \<and> fst (Conn_Close e (snd (Conn_Close e c))) = None)
   \<and> (fst (sw_Close (tx e) (streamid c) (sw c)) \<noteq> None
      \<and> fst (sw_Close (tx e) (streamid c) (sw c)) \<noteq> Some EOF \<longrightarrow>
      fst (Conn_Close e c) = fst (sw_Close (tx e) (streamid c) (sw c))
      \<and> RemovePorts (snd (Conn_Close e c)) = RemovePorts c
      \<and> removefunc (snd (Conn_Close e c)) = removefunc c)
   \<and> RemovePorts (the_conn (exec e evs (start e sid)))
       = (if removefunc (the_conn (exec e evs (start e sid))) then [sid] else [])
   \<and> (None \<in> set (closes (exec e evs (start e sid)))
        \<and> Closed (pipe (the_conn (exec e evs (start e sid))))
      \<longrightarrow> RemovePorts (the_conn (exec e evs (start e sid))) = [sid])
   \<and> RemovePorts (CloseAll e (the_conn (exec e evs (start e sid)))) = [sid]"
proof -
  let ?s = "exec e evs (start e sid)"
  have inv: "conn_inv sid (None \<in> set (closes ?s)) (the_conn ?s)"
    by (rule conn_inv_exec) (rule conn_inv_start)
  from conn_inv_CloseAll [OF inv, of e]
  have all: "RemovePorts (CloseAll e (the_conn ?s)) = [sid]"
    by (simp add: conn_inv_def)
  have once: "RemovePorts (the_conn ?s) = (if removefunc (the_conn ?s) then [sid] else [])"
    and both: "None \<in> set (closes ?s) \<and> Closed (pipe (the_conn ?s))
      \<longrightarrow> RemovePorts (the_conn ?s) = [sid]"
    using inv by (auto simp: conn_inv_def)
  from all once both Conn_Close_twice [where c = c and e = e]
    Conn_Close_refused [where c = c and e = e]
  show ?thesis
    by blast
qed

theorem Close_twice_and_remove_once_witness:
  "fst (sw_Close (tx (accepting 30)) (streamid (NewConn (accepting 30) 7))
         (sw (NewConn (accepting 30) 7))) = None
   \<and> fst (Conn_Close (accepting 30) (NewConn (accepting 30) 7)) = None
   \<and> fst (Conn_Close (accepting 30)
             (snd (Conn_Close (accepting 30) (NewConn (accepting 30) 7)))) = None
   \<and> None \<in> set (closes (exec (accepting 30) [Deliver (FrameFin 7), Work, LocalClose]
             (start (accepting 30) 7)))
   \<and> Closed (pipe (the_conn (exec (accepting 30) [Deliver (FrameFin 7), Work, LocalClose]
             (start (accepting 30) 7))))
   \<and> RemovePorts (the_conn (exec (accepting 30) [Deliver (FrameFin 7), Work, LocalClose]
             (start (accepting 30) 7))) = [7]
   \<and> None \<in> set (closes (exec (accepting 30) [LocalClose, Deliver (FrameFin 7), Work]
             (start (accepting 30) 7)))
   \<and> Closed (pipe (the_conn (exec (accepting 30) [LocalClose, Deliver (FrameFin 7), Work]
             (start (accepting 30) 7))))
   \<and> RemovePorts (the_conn (exec (accepting 30) [LocalClose, Deliver (FrameFin 7), Work]
             (start (accepting 30) 7))) = [7]
   \<and> fst (sw_Close (tx refusing) (streamid (NewConn refusing 7)) (sw (NewConn refusing 7)))
       = Some (ErrOther 1)
   \<and> fst (Conn_Close refusing (NewConn refusing 7)) = Some (ErrOther 1)
   \<and> RemovePorts (snd (Conn_Close refusing (NewConn refusing 7))) = []"
proof -
  let ?e = "accepting 30"
  let ?fin_first = "exec ?e [Deliver (FrameFin 7), Work, LocalClose] (start ?e 7)"
  let ?close_first = "exec ?e [LocalClose, Deliver (FrameFin 7), Work] (start ?e 7)"
  have sender: "fst (sw_Close (tx ?e) (streamid (NewConn ?e 7)) (sw (NewConn ?e 7))) = None"
    by (simp add: accepting_def NewConn_def NewSeqWriter_def sw_Close_def sw_emit_def)
  have fin_first: "None \<in> set (closes ?fin_first)" "Closed (pipe (the_conn ?fin_first))"
    by (simp_all add: eval_defs)
  have close_first: "None \<in> set (closes ?close_first)" "Closed (pipe (the_conn ?close_first))"
    by (simp_all add: eval_defs)
  from Close_twice_and_remove_once
    [where e = ?e and sid = 7 and c = "NewConn ?e 7"
       and evs = "[Deliver (FrameFin 7), Work, LocalClose]"] sender fin_first
  have a: "fst (Conn_Close ?e (NewConn ?e 7)) = None"
    and b: "fst (Conn_Close ?e (snd (Conn_Close ?e (NewConn ?e 7)))) = None"
    and c: "RemovePorts (the_conn ?fin_first) = [7]"
    by blast+
  from Close_twice_and_remove_once
    [where e = ?e and sid = 7 and c = "NewConn ?e 7"
       and evs = "[LocalClose, Deliver (FrameFin 7), Work]"] close_first
  have d: "RemovePorts (the_conn ?close_first) = [7]"
    by blast
  have refused: "fst (sw_Close (tx refusing) (streamid (NewConn refusing 7))
         (sw (NewConn refusing 7))) = Some (ErrOther 1)"
    and new: "RemovePorts (NewConn refusing 7) = []"
    by (simp_all add: refusing_def NewConn_def NewSeqWriter_def sw_Close_def sw_emit_def)
  from Close_twice_and_remove_once
    [where e = refusing and sid = 7 and c = "NewConn refusing 7" and evs = "[]"] refused
  have "fst (Conn_Close refusing (NewConn refusing 7))
      = fst (sw_Close (tx refusing) (streamid (NewConn refusing 7)) (sw (NewConn refusing 7)))"
    and "RemovePorts (snd (Conn_Close refusing (NewConn refusing 7)))
      = RemovePorts (NewConn refusing 7)"
    by simp_all
  with refused new have f: "fst (Conn_Close refusing (NewConn refusing 7)) = Some (ErrOther 1)"
    and g: "RemovePorts (snd (Conn_Close refusing (NewConn refusing 7))) = []"
    by simp_all
  from sender a b fin_first c close_first d refused f g show ?thesis
    by blast
qed

text \<open>
  Claim C4 as stated fails when the session refuses the Fin frame: the first
  \<^verbatim>\<open>Close\<close> returns the sender's error, and although the remote Fin was
  processed before it and the pipe is closed, the stream has not been
  removed.
\<close>

theorem Close_refused_counterexample:
  "fst (Conn_Close refusing (NewConn refusing 7)) = Some (ErrOther 1)
   \<and> closes (exec refusing [Deliver (FrameFin 7), Work, LocalClose] (start refusing 7))
       = [Some (ErrOther 1)]
   \<and> Closed (pipe (the_conn (exec refusing [Deliver (FrameFin 7), Work, LocalClose]
       (start refusing 7))))
   \<and> RemovePorts (the_conn (exec refusing [Deliver (FrameFin 7), Work, LocalClose]
       (start refusing 7))) = []"
  by (simp add: refusing_def eval_defs)

end
